theory Spec2Isabelle
  imports Complex_Main "HOL-Library.Sublist" "HOL-Library.Char_ord" "HOL-Library.List_Lexorder"
    "HOL-Library.AList"
begin

section \<open>The runtime: instants, local calendar dates, decimal strings\<close>

text \<open>
  The statistics engine and the parsers read instants through the JavaScript \<open>Date\<close> object.
  An instant is a number of milliseconds since the epoch; \<open>None\<close> stands for the invalid
  date (\<open>NaN\<close>) that \<open>new Date(s).getTime()\<close> gives for a string that is no date.
  Instants are integral and within the range of \<open>Date\<close>.
  Local time is modelled as UTC shifted by a fixed offset \<open>tz\<close> (in milliseconds): daylight
  saving transitions are outside the model.  The calendar is the proleptic Gregorian one,
  computed from the day number by the usual era/day-of-era arithmetic.
\<close>

type_synonym timestamp = "int option"

definition ms_per_day :: int where
  "ms_per_day = 24 * 60 * 60 * 1000"

definition civil_from_days :: "int \<Rightarrow> int \<times> int \<times> int" where
  "civil_from_days n =
    (let z = n + 719468;
         era = z div 146097;
         doe = z - era * 146097;
         yoe = (doe - doe div 1460 + doe div 36524 - doe div 146096) div 365;
         doy = doe - (365 * yoe + yoe div 4 - yoe div 100);
         mp = (5 * doy + 2) div 153;
         d = doy - (153 * mp + 2) div 5 + 1;
         m = (if mp < 10 then mp + 3 else mp - 9)
     in (yoe + era * 400 + (if m \<le> 2 then 1 else 0), m, d))"

definition days_from_civil :: "int \<Rightarrow> int \<Rightarrow> int \<Rightarrow> int" where
  "days_from_civil y0 m d =
    (let y = (if m \<le> 2 then y0 - 1 else y0);
         era = y div 400;
         yoe = y - era * 400;
         doy = (153 * (if m > 2 then m - 3 else m + 9) + 2) div 5 + d - 1;
         doe = yoe * 365 + yoe div 4 - yoe div 100 + doy
     in era * 146097 + doe - 719468)"

definition local_day :: "int \<Rightarrow> int \<Rightarrow> int" where
  "local_day tz t = (t + tz) div ms_per_day"

definition getFullYear :: "int \<Rightarrow> int \<Rightarrow> int" where
  "getFullYear tz t = fst (civil_from_days (local_day tz t))"

text \<open>\<open>getMonth\<close> is zero-based, as in the runtime.\<close>

definition getMonth :: "int \<Rightarrow> int \<Rightarrow> int" where
  "getMonth tz t = fst (snd (civil_from_days (local_day tz t))) - 1"

definition getDate :: "int \<Rightarrow> int \<Rightarrow> int" where
  "getDate tz t = snd (snd (civil_from_days (local_day tz t)))"

text \<open>\<open>new Date(ts).getFullYear() === year\<close>: false on the invalid date.\<close>

definition in_year :: "int \<Rightarrow> int \<Rightarrow> timestamp \<Rightarrow> bool" where
  "in_year tz year ts = (case ts of None \<Rightarrow> False | Some t \<Rightarrow> getFullYear tz t = year)"

text \<open>
  \<open>year && new Date(timestamp).getFullYear() !== year\<close>, the parsers' filter: an absent
  year and the year \<open>0\<close> are both falsy and switch the filter off.
\<close>

definition year_excludes :: "int \<Rightarrow> int option \<Rightarrow> timestamp \<Rightarrow> bool" where
  "year_excludes tz year ts =
    (case year of None \<Rightarrow> False | Some y \<Rightarrow> y \<noteq> 0 \<and> \<not> in_year tz y ts)"

subsection \<open>Decimal strings\<close>

definition digit_char :: "nat \<Rightarrow> char" where
  "digit_char n = ''0123456789'' ! n"

fun digits :: "nat \<Rightarrow> string" where
  "digits n = (if n < 10 then [digit_char n] else digits (n div 10) @ [digit_char (n mod 10)])"

declare digits.simps [simp del]

text \<open>\<open>String(n)\<close> for an integral number.\<close>

definition String_of :: "int \<Rightarrow> string" where
  "String_of n = (if n < 0 then CHR ''-'' # digits (nat (- n)) else digits (nat n))"

text \<open>\<open>s.padStart(2, "0")\<close>.\<close>

definition padStart2 :: "string \<Rightarrow> string" where
  "padStart2 s = replicate (2 - length s) CHR ''0'' @ s"

definition formatDateKey :: "int \<Rightarrow> int \<Rightarrow> string" where
  "formatDateKey tz t =
    (let year = getFullYear tz t;
         month = padStart2 (String_of (getMonth tz t + 1));
         day = padStart2 (String_of (getDate tz t))
     in String_of year @ ''-'' @ month @ ''-'' @ day)"

text \<open>
  \<open>new Date(key).getTime()\<close> for a key of the shape \<open>YYYY-MM-DD\<close>: the date-only ISO form
  is read as midnight UTC.  Strings of any other shape are treated as the invalid date,
  and a day number beyond the length of its month is carried into the next month; the
  engine only passes keys made by \<open>formatDateKey\<close>, which have this shape, with a day of
  the month, for the years 1000 to 9999.
\<close>

definition digit_val :: "char \<Rightarrow> nat option" where
  "digit_val c = (if c \<in> set ''0123456789'' then Some (of_char c - 48) else None)"

fun number_of_digits :: "string \<Rightarrow> nat \<Rightarrow> nat option" where
  "number_of_digits [] acc = Some acc"
| "number_of_digits (c # cs) acc =
    (case digit_val c of None \<Rightarrow> None | Some v \<Rightarrow> number_of_digits cs (10 * acc + v))"

definition parseDateKey :: "string \<Rightarrow> timestamp" where
  "parseDateKey s =
    (if length s = 10 \<and> s ! 4 = CHR ''-'' \<and> s ! 7 = CHR ''-'' then
       (case (number_of_digits (take 4 s) 0, number_of_digits (take 2 (drop 5 s)) 0,
              number_of_digits (drop 8 s) 0) of
          (Some y, Some m, Some d) \<Rightarrow>
            (if 1 \<le> m \<and> m \<le> 12 \<and> 1 \<le> d \<and> d \<le> 31
             then Some (days_from_civil (int y) (int m) (int d) * ms_per_day) else None)
        | _ \<Rightarrow> None)
     else None)"

section \<open>The normalized event model\<close>

text \<open>
  \<open>SessionData\<close>, \<open>MessageData\<close> and \<open>ProjectData\<close> as the collector builds them.  Field
  names carry a prefix per record.  A field that the source reads through \<open>?.\<close>, \<open>||\<close>
  or \<open>??\<close> is optional (\<open>None\<close> is \<open>undefined\<close>); the fields that the source's interfaces
  declare as required are present.  Token counts are integral; the monetary cost is a
  real number (floating-point rounding is not modelled).
\<close>

datatype DataSource = Src_pi | Src_codex | Src_claude | Src_opencode

record Usage =
  u_input :: "int option"
  u_output :: "int option"
  u_cacheRead :: "int option"
  u_cacheWrite :: "int option"
  u_cost_total :: "real option"

record SessionData =
  s_id :: string
  s_timestamp :: timestamp
  s_cwd :: string
  s_provider :: string
  s_modelId :: string
  s_source :: DataSource

record MessageData =
  m_sessionId :: string
  m_role :: string
  m_timestamp :: timestamp
  m_provider :: "string option"
  m_modelId :: "string option"
  m_usage :: "Usage option"
  m_source :: DataSource

record ProjectData =
  p_path :: string
  p_sessionCount :: nat
  p_source :: DataSource

text \<open>\<open>x || 0\<close> on an optional number, and \<open>x || d\<close> on an optional string.\<close>

definition or0 :: "int option \<Rightarrow> int" where
  "or0 x = (case x of None \<Rightarrow> 0 | Some v \<Rightarrow> v)"

definition or_default :: "string option \<Rightarrow> string \<Rightarrow> string" where
  "or_default x d = (case x of None \<Rightarrow> d | Some v \<Rightarrow> if v = [] then d else v)"

text \<open>
  A JavaScript \<open>Map\<close> is an association list in insertion order with distinct keys:
  \<open>has\<close> and \<open>get\<close> look a key up, \<open>set\<close> overwrites in place or appends
  (\<^const>\<open>AList.update\<close>).
\<close>

definition map_has :: "('k \<times> 'v) list \<Rightarrow> 'k \<Rightarrow> bool" where
  "map_has m k = (map_of m k \<noteq> None)"

text \<open>\<open>m.set(k, (m.get(k) || 0) + 1)\<close>\<close>

definition map_incr :: "'k \<Rightarrow> ('k \<times> nat) list \<Rightarrow> ('k \<times> nat) list" where
  "map_incr k m = AList.update k ((case map_of m k of None \<Rightarrow> 0 | Some c \<Rightarrow> c) + 1) m"

section \<open>Format parsers\<close>

text \<open>
  A file is the list of its lines after \<open>JSON.parse\<close>, or \<open>None\<close> when it cannot be read.
  The timestamp field of a decoded line holds what \<open>parseTimestamp\<close> returns for it.
\<close>

subsection \<open>Pi: session line and message lines\<close>

record PiSessionLine =
  psl_id :: string
  psl_timestamp :: timestamp
  psl_cwd :: string
  psl_provider :: string
  psl_modelId :: string

record PiMessageBody =
  pmb_role :: string
  pmb_provider :: "string option"
  pmb_model :: "string option"
  pmb_usage :: "Usage option"

text \<open>
  \<open>PiMessage ts None\<close> is a message line without its \<open>message\<close> object: reading
  \<open>raw.message.role\<close> throws and the line is skipped.  \<open>PiOther\<close> is a blank line, a line
  that is not JSON, or a value with another \<open>type\<close>.
\<close>

datatype pi_line =
  PiSession PiSessionLine
| PiMessage timestamp "PiMessageBody option"
| PiOther

fun parsePiLines ::
  "int \<Rightarrow> int option \<Rightarrow> pi_line list \<Rightarrow> SessionData option \<Rightarrow> MessageData list
    \<Rightarrow> SessionData option \<times> MessageData list" where
  "parsePiLines tz year [] session messages = (session, messages)"
| "parsePiLines tz year (PiSession raw # lines) session messages =
    (if year_excludes tz year (psl_timestamp raw) then (None, [])
     else parsePiLines tz year lines
            (Some \<lparr>s_id = psl_id raw, s_timestamp = psl_timestamp raw, s_cwd = psl_cwd raw,
                   s_provider = psl_provider raw, s_modelId = psl_modelId raw,
                   s_source = Src_pi\<rparr>)
            messages)"
| "parsePiLines tz year (PiMessage ts body # lines) session messages =
    (if year_excludes tz year ts then parsePiLines tz year lines session messages
     else (case body of
             None \<Rightarrow> parsePiLines tz year lines session messages
           | Some msg \<Rightarrow>
               parsePiLines tz year lines session
                 (messages @
                   [\<lparr>m_sessionId = (case session of None \<Rightarrow> [] | Some s \<Rightarrow> s_id s),
                     m_role = pmb_role msg, m_timestamp = ts, m_provider = pmb_provider msg,
                     m_modelId = pmb_model msg, m_usage = pmb_usage msg,
                     m_source = Src_pi\<rparr>])))"
| "parsePiLines tz year (PiOther # lines) session messages =
    parsePiLines tz year lines session messages"

definition parsePiFile ::
  "int \<Rightarrow> int option \<Rightarrow> pi_line list option \<Rightarrow> SessionData option \<times> MessageData list" where
  "parsePiFile tz year file =
    (case file of None \<Rightarrow> (None, []) | Some lines \<Rightarrow> parsePiLines tz year lines None [])"

subsection \<open>Claude: role-tagged transcript\<close>

record ClaudeUsage =
  input_tokens :: "int option"
  output_tokens :: "int option"
  cache_read_input_tokens :: "int option"
  cache_creation_input_tokens :: "int option"

record ClaudeMessage =
  cm_role :: string
  cm_model :: "string option"
  cm_usage :: "ClaudeUsage option"

text \<open>
  \<open>cl_type\<close> and \<open>cl_sessionId\<close> are the empty string when the line has no such field
  (both are falsy).  A line of the file is \<open>None\<close> when it is blank or not JSON.
\<close>

record ClaudeLine =
  cl_type :: string
  cl_sessionId :: string
  cl_cwd :: string
  cl_timestamp :: timestamp
  cl_message :: "ClaudeMessage option"
  cl_costUSD :: "real option"

definition claude_session_of :: "ClaudeLine \<Rightarrow> SessionData" where
  "claude_session_of parsed =
    \<lparr>s_id = cl_sessionId parsed, s_timestamp = cl_timestamp parsed, s_cwd = cl_cwd parsed,
      s_provider = ''anthropic'',
      s_modelId = or_default (case cl_message parsed of None \<Rightarrow> None | Some m \<Rightarrow> cm_model m)
                    ''claude'',
      s_source = Src_claude\<rparr>"

definition claude_message_of :: "ClaudeLine \<Rightarrow> MessageData" where
  "claude_message_of parsed =
    (let usage = (case cl_message parsed of None \<Rightarrow> None | Some m \<Rightarrow> cm_usage m)
     in \<lparr>m_sessionId = cl_sessionId parsed, m_role = cl_type parsed,
          m_timestamp = cl_timestamp parsed, m_provider = Some ''anthropic'',
          m_modelId = (case cl_message parsed of None \<Rightarrow> None | Some m \<Rightarrow> cm_model m),
          m_usage =
            (case usage of
               None \<Rightarrow> None
             | Some u \<Rightarrow>
                 Some \<lparr>u_input = Some (or0 (input_tokens u)),
                       u_output = Some (or0 (output_tokens u)),
                       u_cacheRead = cache_read_input_tokens u,
                       u_cacheWrite = cache_creation_input_tokens u,
                       u_cost_total = None\<rparr>),
          m_source = Src_claude\<rparr>)"

fun parseClaudeLines ::
  "int \<Rightarrow> int option \<Rightarrow> ClaudeLine option list \<Rightarrow> (string \<times> SessionData) list
    \<Rightarrow> MessageData list \<Rightarrow> (string \<times> SessionData) list \<times> MessageData list" where
  "parseClaudeLines tz year [] sessions messages = (sessions, messages)"
| "parseClaudeLines tz year (None # lines) sessions messages =
    parseClaudeLines tz year lines sessions messages"
| "parseClaudeLines tz year (Some parsed # lines) sessions messages =
    (if cl_type parsed = [] \<or> cl_sessionId parsed = [] then
       parseClaudeLines tz year lines sessions messages
     else if year_excludes tz year (cl_timestamp parsed) then
       parseClaudeLines tz year lines sessions messages
     else
       (let sessions' =
              (if \<not> map_has sessions (cl_sessionId parsed)
               then AList.update (cl_sessionId parsed) (claude_session_of parsed) sessions
               else sessions);
            messages' =
              (if cl_type parsed = ''user'' \<or> cl_type parsed = ''assistant''
               then messages @ [claude_message_of parsed]
               else messages)
        in parseClaudeLines tz year lines sessions' messages'))"

definition parseClaudeFile ::
  "int \<Rightarrow> int option \<Rightarrow> ClaudeLine option list option
    \<Rightarrow> (string \<times> SessionData) list \<times> MessageData list" where
  "parseClaudeFile tz year file =
    (case file of None \<Rightarrow> ([], []) | Some lines \<Rightarrow> parseClaudeLines tz year lines [] [])"

subsection \<open>Codex: event log with out-of-band token counts\<close>

record CodexMetaPayload =
  cmp_id :: string
  cmp_cwd :: string
  cmp_model_provider :: "string option"

record CodexTokenUsage =
  ctu_input_tokens :: "int option"
  ctu_output_tokens :: "int option"
  ctu_reasoning_output_tokens :: "int option"

text \<open>
  \<open>CodexSessionMeta ts None\<close> and \<open>CodexResponseItem ts None\<close> are lines without their
  \<open>payload\<close> object: reading a field of it throws and the line is skipped, after the year
  test.  \<open>CodexTokenCount u\<close> is an \<open>event_msg\<close> whose payload type is \<open>token_count\<close>, with
  \<open>u\<close> what \<open>payload.info?.last_token_usage\<close> gives.  \<open>CodexOther\<close> is any other line.
\<close>

datatype codex_line =
  CodexSessionMeta timestamp "CodexMetaPayload option"
| CodexResponseItem timestamp "string option"
| CodexTokenCount "CodexTokenUsage option"
| CodexOther

text \<open>
  The backwards scan \<open>for (let i = messages.length - 1; i >= 0; i--)\<close>: the first argument
  is \<open>i + 1\<close>, so \<open>0\<close> is the end of the loop.
\<close>

definition codex_usage :: "CodexTokenUsage \<Rightarrow> Usage" where
  "codex_usage usage =
    \<lparr>u_input = Some (or0 (ctu_input_tokens usage)),
      u_output = Some (or0 (ctu_output_tokens usage)),
      u_cacheRead = None, u_cacheWrite = None, u_cost_total = None\<rparr>"

fun attach_usage :: "nat \<Rightarrow> CodexTokenUsage \<Rightarrow> MessageData list \<Rightarrow> MessageData list" where
  "attach_usage 0 usage messages = messages"
| "attach_usage (Suc i) usage messages =
    (if m_role (messages ! i) = ''assistant'' \<and> m_usage (messages ! i) = None
     then messages[i := (messages ! i)\<lparr>m_usage := Some (codex_usage usage)\<rparr>]
     else attach_usage i usage messages)"

fun parseCodexLines ::
  "int \<Rightarrow> int option \<Rightarrow> codex_line list \<Rightarrow> SessionData option \<Rightarrow> MessageData list
    \<Rightarrow> SessionData option \<times> MessageData list" where
  "parseCodexLines tz year [] session messages = (session, messages)"
| "parseCodexLines tz year (CodexSessionMeta ts payload # lines) session messages =
    (if year_excludes tz year ts then (None, [])
     else (case payload of
             None \<Rightarrow> parseCodexLines tz year lines session messages
           | Some pl \<Rightarrow>
               parseCodexLines tz year lines
                 (Some \<lparr>s_id = cmp_id pl, s_timestamp = ts, s_cwd = cmp_cwd pl,
                        s_provider = or_default (cmp_model_provider pl) ''openai'',
                        s_modelId = ''codex'', s_source = Src_codex\<rparr>)
                 messages))"
| "parseCodexLines tz year (CodexResponseItem ts payload_role # lines) session messages =
    (if year_excludes tz year ts then parseCodexLines tz year lines session messages
     else (case payload_role of
             None \<Rightarrow> parseCodexLines tz year lines session messages
           | Some role \<Rightarrow>
               parseCodexLines tz year lines session
                 (messages @
                   [\<lparr>m_sessionId = (case session of None \<Rightarrow> [] | Some s \<Rightarrow> s_id s),
                     m_role = role, m_timestamp = ts,
                     m_provider =
                       Some (or_default (case session of None \<Rightarrow> None
                                         | Some s \<Rightarrow> Some (s_provider s)) ''openai''),
                     m_modelId = Some ''codex'', m_usage = None, m_source = Src_codex\<rparr>])))"
| "parseCodexLines tz year (CodexTokenCount usage # lines) session messages =
    (case usage of
       None \<Rightarrow> parseCodexLines tz year lines session messages
     | Some u \<Rightarrow> parseCodexLines tz year lines session (attach_usage (length messages) u messages))"
| "parseCodexLines tz year (CodexOther # lines) session messages =
    parseCodexLines tz year lines session messages"

definition parseCodexFile ::
  "int \<Rightarrow> int option \<Rightarrow> codex_line list option \<Rightarrow> SessionData option \<times> MessageData list" where
  "parseCodexFile tz year file =
    (case file of None \<Rightarrow> (None, []) | Some lines \<Rightarrow> parseCodexLines tz year lines None [])"

subsection \<open>OpenCode: one JSON document per session and per message\<close>

record OpenCodeSession =
  ocs_id :: string
  ocs_projectID :: string
  ocs_directory :: string
  ocs_time_created :: timestamp

record OpenCodeTokens =
  oct_input :: "int option"
  oct_output :: "int option"
  oct_reasoning :: "int option"
  oct_cache_read :: "int option"
  oct_cache_write :: "int option"

record OpenCodeMessage =
  ocm_id :: string
  ocm_sessionID :: string
  ocm_role :: string
  ocm_modelID :: "string option"
  ocm_providerID :: "string option"
  ocm_tokens :: "OpenCodeTokens option"
  ocm_cost :: "real option"
  ocm_time_created :: timestamp

section \<open>Collector\<close>

text \<open>
  The file system as the collector sees it: for each line-oriented source the \<open>.jsonl\<close>
  files found under its root, and for OpenCode the \<open>.json\<close> documents of the session and
  message trees (\<open>None\<close> is a document that cannot be read or decoded, or has no \<open>time\<close>
  object).  The parse tasks run concurrently and each one appends its result when it
  completes; a list here is in that completion order, so a statement about every list is a
  statement about every interleaving.  A missing root is an empty list.
\<close>

record file_system =
  pi_files :: "pi_line list option list"
  claude_files :: "ClaudeLine option list option list"
  codex_files :: "codex_line list option list"
  opencode_session_docs :: "OpenCodeSession option list"
  opencode_message_docs :: "OpenCodeMessage option list"

record Collected =
  c_sessions :: "SessionData list"
  c_messages :: "MessageData list"
  c_projects :: "ProjectData list"

definition projects_of :: "(string \<times> nat) list \<Rightarrow> DataSource \<Rightarrow> ProjectData list" where
  "projects_of projectMap source =
    map (\<lambda>(path, sessionCount).
          \<lparr>p_path = path, p_sessionCount = sessionCount, p_source = source\<rparr>) projectMap"

text \<open>The state of a collection pass: \<open>sessions\<close>, \<open>allMessages\<close>, \<open>projectMap\<close>.\<close>

type_synonym collect_state = "SessionData list \<times> MessageData list \<times> (string \<times> nat) list"

definition collectOpenCode_session ::
  "int \<Rightarrow> int option \<Rightarrow> collect_state \<Rightarrow> OpenCodeSession option \<Rightarrow> collect_state" where
  "collectOpenCode_session tz year st doc =
    (case st of (sessions, allMessages, projectMap) \<Rightarrow>
      (case doc of
         None \<Rightarrow> st
       | Some raw \<Rightarrow>
           if year_excludes tz year (ocs_time_created raw) then st
           else (sessions @
                   [\<lparr>s_id = ocs_id raw, s_timestamp = ocs_time_created raw,
                     s_cwd = ocs_directory raw, s_provider = ''opencode'',
                     s_modelId = ''opencode'', s_source = Src_opencode\<rparr>],
                 allMessages, map_incr (ocs_directory raw) projectMap)))"

definition collectOpenCode_message ::
  "int \<Rightarrow> int option \<Rightarrow> collect_state \<Rightarrow> OpenCodeMessage option \<Rightarrow> collect_state" where
  "collectOpenCode_message tz year st doc =
    (case st of (sessions, allMessages, projectMap) \<Rightarrow>
      (case doc of
         None \<Rightarrow> st
       | Some raw \<Rightarrow>
           if year_excludes tz year (ocm_time_created raw) then st
           else (sessions,
                 allMessages @
                   [\<lparr>m_sessionId = ocm_sessionID raw, m_role = ocm_role raw,
                     m_timestamp = ocm_time_created raw, m_provider = ocm_providerID raw,
                     m_modelId = ocm_modelID raw,
                     m_usage =
                       (case ocm_tokens raw of
                          None \<Rightarrow> None
                        | Some tk \<Rightarrow>
                            Some \<lparr>u_input = Some (or0 (oct_input tk)),
                                  u_output = Some (or0 (oct_output tk)),
                                  u_cacheRead = oct_cache_read tk,
                                  u_cacheWrite = oct_cache_write tk,
                                  u_cost_total = None\<rparr>),
                     m_source = Src_opencode\<rparr>],
                 projectMap)))"

definition collectOpenCode :: "int \<Rightarrow> file_system \<Rightarrow> int option \<Rightarrow> Collected" where
  "collectOpenCode tz fs year =
    (let st1 = foldl (collectOpenCode_session tz year) ([], [], []) (opencode_session_docs fs);
         st2 = foldl (collectOpenCode_message tz year) st1 (opencode_message_docs fs)
     in case st2 of (sessions, allMessages, projectMap) \<Rightarrow>
          \<lparr>c_sessions = sessions, c_messages = allMessages,
            c_projects = projects_of projectMap Src_opencode\<rparr>)"

definition collect_pi_file ::
  "int \<Rightarrow> int option \<Rightarrow> collect_state \<Rightarrow> pi_line list option \<Rightarrow> collect_state" where
  "collect_pi_file tz year st file =
    (case st of (sessions, allMessages, projectMap) \<Rightarrow>
      (case parsePiFile tz year file of
         (None, messages) \<Rightarrow> (sessions, allMessages @ messages, projectMap)
       | (Some session, messages) \<Rightarrow>
           (sessions @ [session], allMessages @ messages,
            map_incr (s_cwd session) projectMap)))"

definition collect_codex_file ::
  "int \<Rightarrow> int option \<Rightarrow> collect_state \<Rightarrow> codex_line list option \<Rightarrow> collect_state" where
  "collect_codex_file tz year st file =
    (case st of (sessions, allMessages, projectMap) \<Rightarrow>
      (case parseCodexFile tz year file of
         (None, messages) \<Rightarrow> (sessions, allMessages @ messages, projectMap)
       | (Some session, messages) \<Rightarrow>
           (sessions @ [session], allMessages @ messages,
            map_incr (s_cwd session) projectMap)))"

text \<open>
  The Claude merge: \<open>allSessions\<close> is a map from session id to session; a file's sessions
  are offered in their insertion order and an id already present is left alone.
\<close>

type_synonym claude_state =
  "(string \<times> SessionData) list \<times> MessageData list \<times> (string \<times> nat) list"

fun merge_claude_sessions ::
  "(string \<times> SessionData) list \<Rightarrow> (string \<times> SessionData) list \<Rightarrow> (string \<times> nat) list
    \<Rightarrow> (string \<times> SessionData) list \<times> (string \<times> nat) list" where
  "merge_claude_sessions [] allSessions projectMap = (allSessions, projectMap)"
| "merge_claude_sessions ((id', session) # fileSessions) allSessions projectMap =
    (if \<not> map_has allSessions id'
     then merge_claude_sessions fileSessions (AList.update id' session allSessions)
            (map_incr (s_cwd session) projectMap)
     else merge_claude_sessions fileSessions allSessions projectMap)"

definition collect_claude_file ::
  "int \<Rightarrow> int option \<Rightarrow> claude_state \<Rightarrow> ClaudeLine option list option \<Rightarrow> claude_state" where
  "collect_claude_file tz year st file =
    (case st of (allSessions, allMessages, projectMap) \<Rightarrow>
      (case parseClaudeFile tz year file of (fileSessions, messages) \<Rightarrow>
        (case merge_claude_sessions fileSessions allSessions projectMap of
           (allSessions', projectMap') \<Rightarrow>
             (allSessions', allMessages @ messages, projectMap'))))"

definition collectAll :: "int \<Rightarrow> DataSource \<Rightarrow> file_system \<Rightarrow> int option \<Rightarrow> Collected" where
  "collectAll tz source fs year =
    (case source of
       Src_opencode \<Rightarrow> collectOpenCode tz fs year
     | Src_pi \<Rightarrow>
         (case foldl (collect_pi_file tz year) ([], [], []) (pi_files fs) of
            (sessions, allMessages, projectMap) \<Rightarrow>
              \<lparr>c_sessions = sessions, c_messages = allMessages,
                c_projects = projects_of projectMap source\<rparr>)
     | Src_claude \<Rightarrow>
         (case foldl (collect_claude_file tz year) ([], [], []) (claude_files fs) of
            (allSessions, allMessages, projectMap) \<Rightarrow>
              \<lparr>c_sessions = map snd allSessions, c_messages = allMessages,
                c_projects = projects_of projectMap source\<rparr>)
     | Src_codex \<Rightarrow>
         (case foldl (collect_codex_file tz year) ([], [], []) (codex_files fs) of
            (sessions, allMessages, projectMap) \<Rightarrow>
              \<lparr>c_sessions = sessions, c_messages = allMessages,
                c_projects = projects_of projectMap source\<rparr>))"

section \<open>Statistics engine\<close>

subsection \<open>Facts about the calendar and the date keys\<close>

text \<open>
  The backwards walk of the current streak stops because a finite map cannot hold a key
  for every earlier day: the year of a day decreases without bound, and a date key
  determines its year.
\<close>

lemma div_bounds:
  fixes x :: int
  assumes "0 < k"
  shows "k * (x div k) \<le> x" "x < k * (x div k) + k"
proof -
  define q where "q = k * (x div k)"
  define r where "r = x mod k"
  have "q + r = x" unfolding q_def r_def by (rule mult_div_mod_eq)
  moreover have "0 \<le> r" "r < k" unfolding r_def using assms by simp_all
  ultimately show "k * (x div k) \<le> x" "x < k * (x div k) + k"
    unfolding q_def[symmetric] by linarith+
qed

lemma yoe_le:
  fixes doe :: int
  assumes "0 \<le> doe" "doe < 146097"
  shows "(doe - doe div 1460 + doe div 36524 - doe div 146096) div 365 \<le> 399"
proof -
  define a where "a = doe div 1460"
  define b where "b = doe div 36524"
  define c where "c = doe div 146096"
  have a: "doe < 1460 * a + 1460" unfolding a_def by (rule div_bounds) simp
  have b: "36524 * b \<le> doe" unfolding b_def by (rule div_bounds) simp
  have c: "0 \<le> c" unfolding c_def using assms by (simp add: pos_imp_zdiv_nonneg_iff)
  have "doe - a + b - c < 146000"
  proof (cases "doe = 146096")
    case True
    then show ?thesis unfolding a_def b_def c_def by simp
  next
    case False
    with assms have "doe \<le> 146095" by simp
    with a b c show ?thesis by linarith
  qed
  then have "(doe - a + b - c) div 365 < 400"
    by (simp add: div_less_iff_less_mult)
  then show ?thesis unfolding a_def b_def c_def by simp
qed

lemma year_upper: "fst (civil_from_days n) \<le> 400 * ((n + 719468) div 146097) + 400"
proof -
  define z where "z = n + 719468"
  define era where "era = z div 146097"
  define doe where "doe = z - era * 146097"
  have d: "0 \<le> doe" "doe < 146097"
    unfolding doe_def era_def by (simp_all add: minus_div_mult_eq_mod)
  define yoe where "yoe = (doe - doe div 1460 + doe div 36524 - doe div 146096) div 365"
  have y: "yoe \<le> 399" unfolding yoe_def using yoe_le[OF d] .
  have "fst (civil_from_days n) \<le> yoe + era * 400 + 1"
    unfolding civil_from_days_def Let_def z_def[symmetric] era_def[symmetric]
      doe_def[symmetric] yoe_def[symmetric] fst_conv
    by (simp del: div_mult_self1 div_mult_self2 div_mult_self3 div_mult_self4)
  with y show ?thesis unfolding era_def z_def by linarith
qed

lemma year_unbounded_below: "\<exists>L. \<forall>d \<le> L. fst (civil_from_days d) < y0"
proof -
  define k where "k = (y0 - 401) div 400"
  define L where "L = 146097 * k - 719468"
  have "fst (civil_from_days d) < y0" if "d \<le> L" for d
  proof -
    have "(d + 719468) div 146097 \<le> (146097 * k) div 146097"
      using that unfolding L_def by (intro zdiv_mono1) simp_all
    then have "(d + 719468) div 146097 \<le> k" by simp
    moreover have "400 * k \<le> y0 - 401" unfolding k_def by (rule div_bounds) simp
    moreover define e where "e = (d + 719468) div 146097"
    moreover have "fst (civil_from_days d) \<le> 400 * e + 400" unfolding e_def by (rule year_upper)
    ultimately show ?thesis by linarith
  qed
  then show ?thesis by blast
qed


lemma digit_char_inj: "a < 10 \<Longrightarrow> b < 10 \<Longrightarrow> digit_char a = digit_char b \<Longrightarrow> a = b"
proof -
  assume "a < 10" "b < 10" and eq: "digit_char a = digit_char b"
  then have "a \<in> {0,1,2,3,4,5,6,7,8,9}" "b \<in> {0,1,2,3,4,5,6,7,8,9}" by auto
  with eq show ?thesis unfolding digit_char_def by auto
qed

lemma digit_char_not_dash: "a < 10 \<Longrightarrow> digit_char a \<noteq> CHR ''-''"
proof -
  assume "a < 10"
  then have "a \<in> {0,1,2,3,4,5,6,7,8,9}" by auto
  then show ?thesis unfolding digit_char_def by auto
qed

lemma digits_nonempty: "digits n \<noteq> []"
  by (subst digits.simps) simp

lemma digits_no_dash: "CHR ''-'' \<notin> set (digits n)"
proof (induction n rule: digits.induct)
  case (1 n)
  show ?case
  proof (cases "n < 10")
    case True
    then show ?thesis using digit_char_not_dash[of n] by (subst digits.simps) auto
  next
    case False
    moreover have "n mod 10 < 10" by simp
    ultimately show ?thesis using 1 digit_char_not_dash[of "n mod 10"]
      by (subst digits.simps) auto
  qed
qed

lemma digits_length_ge2: "\<not> n < 10 \<Longrightarrow> 2 \<le> length (digits n)"
  using digits_nonempty[of "n div 10"]
  by (subst digits.simps) (cases "digits (n div 10)", auto)

lemma digits_length_1: "n < 10 \<Longrightarrow> length (digits n) = 1"
  by (subst digits.simps) simp

lemma digits_inj: "digits n = digits m \<Longrightarrow> n = m"
proof (induction n arbitrary: m rule: digits.induct)
  case (1 n)
  show ?case
  proof (cases "n < 10")
    case True
    have m: "m < 10"
    proof (rule ccontr)
      assume "\<not> m < 10"
      then have "2 \<le> length (digits m)" by (rule digits_length_ge2)
      with 1(2) digits_length_1[OF True] show False by simp
    qed
    have "digits n = [digit_char n]" "digits m = [digit_char m]"
      using True m by (subst digits.simps, simp)+
    with 1(2) have "digit_char n = digit_char m" by simp
    then show ?thesis using True m by (rule_tac digit_char_inj)
  next
    case False
    have m: "\<not> m < 10"
    proof
      assume "m < 10"
      then have "length (digits m) = 1" by (rule digits_length_1)
      with 1(2) digits_length_ge2[OF False] show False by simp
    qed
    have "digits n = digits (n div 10) @ [digit_char (n mod 10)]"
         "digits m = digits (m div 10) @ [digit_char (m mod 10)]"
      using False m by (subst digits.simps, simp)+
    with 1(2) have e: "digits (n div 10) = digits (m div 10)"
        "digit_char (n mod 10) = digit_char (m mod 10)" by simp_all
    have "n div 10 = m div 10" using 1(1)[OF False e(1)] .
    moreover have "n mod 10 = m mod 10" using e(2) by (intro digit_char_inj) simp_all
    ultimately show ?thesis by (metis div_mult_mod_eq)
  qed
qed

lemma append_sep_eq:
  "a \<notin> set xs \<Longrightarrow> a \<notin> set ys \<Longrightarrow> xs @ a # r = ys @ a # r' \<Longrightarrow> xs = ys"
proof (induction xs arbitrary: ys)
  case Nil
  then show ?case by (cases ys) auto
next
  case (Cons x xs)
  then show ?case by (cases ys) auto
qed

lemma String_of_sep_inj:
  assumes "String_of y @ CHR ''-'' # r = String_of y' @ CHR ''-'' # r'"
  shows "y = y'"
proof -
  have hd_neg: "hd (String_of v @ CHR ''-'' # q) = CHR ''-'' \<longleftrightarrow> v < 0" for v q
  proof (cases "v < 0")
    case True
    then show ?thesis by (simp add: String_of_def)
  next
    case False
    obtain c cs where d: "digits (nat v) = c # cs"
      using digits_nonempty[of "nat v"] by (cases "digits (nat v)") auto
    then have "c \<noteq> CHR ''-''" using digits_no_dash[of "nat v"] by auto
    with False d show ?thesis by (simp add: String_of_def)
  qed
  from assms have "hd (String_of y @ CHR ''-'' # r) = hd (String_of y' @ CHR ''-'' # r')"
    by simp
  then have sgn: "y < 0 \<longleftrightarrow> y' < 0" using hd_neg by metis
  show ?thesis
  proof (cases "y < 0")
    case True
    with sgn assms have "digits (nat (- y)) @ CHR ''-'' # r = digits (nat (- y')) @ CHR ''-'' # r'"
      by (simp add: String_of_def)
    then have "digits (nat (- y)) = digits (nat (- y'))"
      by (rule append_sep_eq[OF digits_no_dash digits_no_dash])
    then have "nat (- y) = nat (- y')" by (rule digits_inj)
    with True sgn show ?thesis by simp
  next
    case False
    with sgn assms have "digits (nat y) @ CHR ''-'' # r = digits (nat y') @ CHR ''-'' # r'"
      by (simp add: String_of_def)
    then have "digits (nat y) = digits (nat y')"
      by (rule append_sep_eq[OF digits_no_dash digits_no_dash])
    then have "nat y = nat y'" by (rule digits_inj)
    with False sgn show ?thesis by simp
  qed
qed

lemma formatDateKey_year:
  "formatDateKey tz t = formatDateKey tz' t' \<Longrightarrow> getFullYear tz t = getFullYear tz' t'"
  unfolding formatDateKey_def Let_def by (rule String_of_sep_inj) simp

lemma formatDateKey_local_day:
  "local_day tz t = local_day tz' t' \<Longrightarrow> formatDateKey tz t = formatDateKey tz' t'"
  by (simp add: formatDateKey_def getFullYear_def getMonth_def getDate_def)

lemma local_day_prev: "local_day tz (t - ms_per_day) = local_day tz t - 1"
proof -
  have "(t - ms_per_day + tz) = (t + tz) + (- 1) * ms_per_day" by simp
  then have "(t - ms_per_day + tz) div ms_per_day = (t + tz) div ms_per_day + (- 1)"
    by (simp only: div_mult_self1[of ms_per_day] ms_per_day_def) simp
  then show ?thesis by (simp add: local_day_def)
qed

text \<open>Every finite set of keys leaves all sufficiently early days uncovered.\<close>

lemma early_days_uncovered:
  assumes "finite K"
  shows "\<exists>L. \<forall>tz t. local_day tz t \<le> L \<longrightarrow> formatDateKey tz t \<notin> K"
proof -
  define Y where "Y = {y. \<exists>tz t. formatDateKey tz t \<in> K \<and> getFullYear tz t = y}"
  define g where "g = (\<lambda>k. SOME y. \<exists>tz t. formatDateKey tz t = k \<and> getFullYear tz t = y)"
  have "Y \<subseteq> g ` K"
  proof
    fix y assume "y \<in> Y"
    then obtain tz t where kt: "formatDateKey tz t \<in> K" "getFullYear tz t = y"
      unfolding Y_def by blast
    have "\<exists>tz' t'. formatDateKey tz' t' = formatDateKey tz t \<and> getFullYear tz' t' = g (formatDateKey tz t)"
      unfolding g_def by (rule someI_ex) blast
    then have "g (formatDateKey tz t) = y" using kt(2) formatDateKey_year by metis
    with kt(1) show "y \<in> g ` K" by blast
  qed
  then have "finite Y" using assms by (meson finite_imageI finite_subset)
  then obtain y0 where y0: "\<forall>y \<in> Y. y0 \<le> y"
    by (metis Min_le)
  obtain L where L: "\<forall>d \<le> L. fst (civil_from_days d) < y0"
    using year_unbounded_below by blast
  have "formatDateKey tz t \<notin> K" if "local_day tz t \<le> L" for tz t
  proof
    assume "formatDateKey tz t \<in> K"
    then have "getFullYear tz t \<in> Y" unfolding Y_def by blast
    with y0 have "y0 \<le> getFullYear tz t" by blast
    moreover have "getFullYear tz t < y0" using L that by (simp add: getFullYear_def)
    ultimately show False by simp
  qed
  then show ?thesis by blast
qed

subsection \<open>Per-message accumulation\<close>

text \<open>The accumulators of the single pass over the year's messages.\<close>

record Accum =
  acc_totalInputTokens :: int
  acc_totalOutputTokens :: int
  acc_totalCost :: real
  acc_modelCounts :: "(string \<times> nat) list"
  acc_providerCounts :: "(string \<times> nat) list"
  acc_dailyActivity :: "(string \<times> nat) list"
  acc_weekdayCounts :: "nat list"

definition getDay :: "int \<Rightarrow> int \<Rightarrow> nat" where
  "getDay tz t = nat ((local_day tz t + 4) mod 7)"

text \<open>
  One iteration of \<open>for (const message of yearMessages)\<close>.  On the invalid date the key is
  \<open>NaN-NaN-NaN\<close> and no weekday bucket changes; the year filter lets no such message in.
\<close>

definition accumulate :: "int \<Rightarrow> Accum \<Rightarrow> MessageData \<Rightarrow> Accum" where
  "accumulate tz acc message =
    (let acc1 =
          (case m_usage message of
             None \<Rightarrow> acc
           | Some usage \<Rightarrow>
               acc\<lparr>acc_totalInputTokens := acc_totalInputTokens acc + or0 (u_input usage),
                   acc_totalOutputTokens := acc_totalOutputTokens acc + or0 (u_output usage),
                   acc_totalCost :=
                     (case u_cost_total usage of
                        None \<Rightarrow> acc_totalCost acc
                      | Some c \<Rightarrow> if c \<noteq> 0 then acc_totalCost acc + c
                                  else acc_totalCost acc)\<rparr>);
         acc2 =
          (if m_role message = ''assistant'' then
             acc1\<lparr>acc_modelCounts :=
                     (case m_modelId message of
                        None \<Rightarrow> acc_modelCounts acc1
                      | Some mid \<Rightarrow> if mid \<noteq> [] then map_incr mid (acc_modelCounts acc1)
                                    else acc_modelCounts acc1),
                   acc_providerCounts :=
                     (case m_provider message of
                        None \<Rightarrow> acc_providerCounts acc1
                      | Some pr \<Rightarrow> if pr \<noteq> [] then map_incr pr (acc_providerCounts acc1)
                                   else acc_providerCounts acc1)\<rparr>
           else acc1);
         dateKey =
          (case m_timestamp message of
             None \<Rightarrow> ''NaN-NaN-NaN''
           | Some t \<Rightarrow> formatDateKey tz t)
     in acc2\<lparr>acc_dailyActivity := map_incr dateKey (acc_dailyActivity acc2),
             acc_weekdayCounts :=
               (case m_timestamp message of
                  None \<Rightarrow> acc_weekdayCounts acc2
                | Some t \<Rightarrow>
                    (acc_weekdayCounts acc2)
                      [getDay tz t := acc_weekdayCounts acc2 ! getDay tz t + 1])\<rparr>)"

definition accum_init :: Accum where
  "accum_init =
    \<lparr>acc_totalInputTokens = 0, acc_totalOutputTokens = 0, acc_totalCost = 0,
      acc_modelCounts = [], acc_providerCounts = [], acc_dailyActivity = [],
      acc_weekdayCounts = [0, 0, 0, 0, 0, 0, 0]\<rparr>"

subsection \<open>Streaks\<close>

text \<open>
  \<open>Math.round(a / b)\<close> for integers and positive \<open>b\<close> is \<open>\<lfloor>a / b + 1/2\<rfloor>\<close>.  \<open>diffDays\<close> is
  \<open>None\<close> when one of the two dates is invalid (\<open>NaN\<close>, which is never \<open>=== 1\<close>).
\<close>

definition math_round_div :: "int \<Rightarrow> int \<Rightarrow> int" where
  "math_round_div a b = (2 * a + b) div (2 * b)"

definition diffDays :: "string \<Rightarrow> string \<Rightarrow> int option" where
  "diffDays prevKey currKey =
    (case (parseDateKey prevKey, parseDateKey currKey) of
       (Some prevDate, Some currDate) \<Rightarrow> Some (math_round_div (currDate - prevDate) ms_per_day)
     | _ \<Rightarrow> None)"

record StreakScan =
  sc_maxStreak :: nat
  sc_tempStreak :: nat
  sc_tempStreakStart :: nat
  sc_maxStreakStart :: nat
  sc_maxStreakEnd :: nat

text \<open>The body of \<open>for (let i = 1; i < activeDates.length; i++)\<close>.\<close>

definition scan_step :: "string list \<Rightarrow> nat \<Rightarrow> StreakScan \<Rightarrow> StreakScan" where
  "scan_step activeDates i st =
    (if diffDays (activeDates ! (i - 1)) (activeDates ! i) = Some 1 then
       (let st' = st\<lparr>sc_tempStreak := sc_tempStreak st + 1\<rparr>
        in if sc_tempStreak st' > sc_maxStreak st'
           then st'\<lparr>sc_maxStreak := sc_tempStreak st',
                    sc_maxStreakStart := sc_tempStreakStart st',
                    sc_maxStreakEnd := i\<rparr>
           else st')
     else st\<lparr>sc_tempStreak := 1, sc_tempStreakStart := i\<rparr>)"

function scan_streaks :: "string list \<Rightarrow> nat \<Rightarrow> StreakScan \<Rightarrow> StreakScan" where
  "scan_streaks activeDates i st =
    (if i < length activeDates
     then scan_streaks activeDates (i + 1) (scan_step activeDates i st)
     else st)"
  by pat_completeness auto
termination
  by (relation "measure (\<lambda>(activeDates, i, st). length activeDates - i)") auto

declare scan_streaks.simps [simp del]

definition scan_init :: StreakScan where
  "scan_init =
    \<lparr>sc_maxStreak = 1, sc_tempStreak = 1, sc_tempStreakStart = 0, sc_maxStreakStart = 0,
      sc_maxStreakEnd = 0\<rparr>"

text \<open>
  \<open>countStreakBackwards\<close>: \<open>count_back\<close> is the \<open>while (true)\<close> loop on \<open>checkDate\<close> and
  \<open>streak\<close>.
\<close>

function count_back :: "int \<Rightarrow> (string \<times> nat) list \<Rightarrow> int \<Rightarrow> nat \<Rightarrow> nat" where
  "count_back tz dailyActivity checkDate streak =
    (if map_has dailyActivity (formatDateKey tz (checkDate - ms_per_day))
     then count_back tz dailyActivity (checkDate - ms_per_day) (streak + 1)
     else streak)"
  by pat_completeness auto
termination
proof (relation "measure (\<lambda>(tz, m, t, s).
    nat (local_day tz t - (SOME L. \<forall>tz' t'. local_day tz' t' \<le> L \<longrightarrow> formatDateKey tz' t' \<notin> fst ` set m)))")
  show "wf (measure (\<lambda>(tz, m, t, s).
    nat (local_day tz t - (SOME L. \<forall>tz' t'. local_day tz' t' \<le> L \<longrightarrow> formatDateKey tz' t' \<notin> fst ` set m))))"
    by simp
next
  fix tz :: int and dailyActivity :: "(string \<times> nat) list" and checkDate :: int and streak :: nat
  assume has: "map_has dailyActivity (formatDateKey tz (checkDate - ms_per_day))"
  define L where "L = (SOME L. \<forall>tz' t'. local_day tz' t' \<le> L \<longrightarrow> formatDateKey tz' t' \<notin> fst ` set dailyActivity)"
  have "\<exists>L. \<forall>tz' t'. local_day tz' t' \<le> L \<longrightarrow> formatDateKey tz' t' \<notin> fst ` set dailyActivity"
    by (rule early_days_uncovered) simp
  then have L: "\<forall>tz' t'. local_day tz' t' \<le> L \<longrightarrow> formatDateKey tz' t' \<notin> fst ` set dailyActivity"
    unfolding L_def by (rule someI_ex)
  have "formatDateKey tz (checkDate - ms_per_day) \<in> fst ` set dailyActivity"
    using has by (simp add: map_has_def map_of_eq_None_iff)
  with L have "L < local_day tz (checkDate - ms_per_day)" by (meson not_le)
  then have "L < local_day tz checkDate - 1" by (simp add: local_day_prev)
  then show "((tz, dailyActivity, checkDate - ms_per_day, streak + 1),
              (tz, dailyActivity, checkDate, streak))
      \<in> measure (\<lambda>(tz, m, t, s).
    nat (local_day tz t - (SOME L. \<forall>tz' t'. local_day tz' t' \<le> L \<longrightarrow> formatDateKey tz' t' \<notin> fst ` set m)))"
    unfolding L_def[symmetric] by (simp add: local_day_prev L_def[symmetric])
qed

declare count_back.simps [simp del]

definition countStreakBackwards :: "int \<Rightarrow> (string \<times> nat) list \<Rightarrow> int \<Rightarrow> nat" where
  "countStreakBackwards tz dailyActivity startDate = count_back tz dailyActivity startDate 1"

record Streaks =
  st_maxStreak :: nat
  st_currentStreak :: nat
  st_maxStreakDays :: "string set"

text \<open>
  \<open>now\<close> is the wall clock; the source reads it several times within one call, which the
  model takes as one instant.
\<close>

definition activeDates_of :: "(string \<times> nat) list \<Rightarrow> int \<Rightarrow> string list" where
  "activeDates_of dailyActivity year =
    sort (filter (\<lambda>date. prefix (String_of year) date) (map fst dailyActivity))"

definition calculateStreaks :: "int \<Rightarrow> int \<Rightarrow> (string \<times> nat) list \<Rightarrow> int \<Rightarrow> Streaks" where
  "calculateStreaks tz now dailyActivity year =
    (let activeDates = activeDates_of dailyActivity year
     in if length activeDates = 0
        then \<lparr>st_maxStreak = 0, st_currentStreak = 0, st_maxStreakDays = {}\<rparr>
        else
          (let st = scan_streaks activeDates 1 scan_init;
               maxStreakDays =
                 set (map (\<lambda>i. activeDates ! i)
                        [sc_maxStreakStart st ..< sc_maxStreakEnd st + 1]);
               today = formatDateKey tz now;
               yesterday = formatDateKey tz (now - ms_per_day);
               currentStreak =
                 (if map_has dailyActivity today
                  then countStreakBackwards tz dailyActivity now
                  else if map_has dailyActivity yesterday
                  then countStreakBackwards tz dailyActivity (now - ms_per_day)
                  else 0)
           in \<lparr>st_maxStreak = sc_maxStreak st, st_currentStreak = currentStreak,
                st_maxStreakDays = maxStreakDays\<rparr>))"

subsection \<open>The summary\<close>

text \<open>
  The fields of \<open>WrappedStats\<close> that depend only on the collected data and the clock.  The
  first-session fields, the rankings (which call the model-name service), the most active
  day and the weekday readout are left out: no statement below concerns them.
\<close>

record WrappedStats =
  w_year :: int
  w_source :: DataSource
  totalSessions :: nat
  totalMessages :: nat
  totalProjects :: nat
  totalInputTokens :: int
  totalOutputTokens :: int
  totalTokens :: int
  totalCost :: real
  maxStreak :: nat
  currentStreak :: nat
  maxStreakDays :: "string set"
  dailyActivity :: "(string \<times> nat) list"

definition year_sessions :: "int \<Rightarrow> int \<Rightarrow> SessionData list \<Rightarrow> SessionData list" where
  "year_sessions tz year allSessions = filter (\<lambda>s. in_year tz year (s_timestamp s)) allSessions"

definition year_messages :: "int \<Rightarrow> int \<Rightarrow> MessageData list \<Rightarrow> MessageData list" where
  "year_messages tz year messages = filter (\<lambda>m. in_year tz year (m_timestamp m)) messages"

definition calculateStats :: "int \<Rightarrow> int \<Rightarrow> file_system \<Rightarrow> int \<Rightarrow> DataSource \<Rightarrow> WrappedStats" where
  "calculateStats tz now fs year source =
    (let collected = collectAll tz source fs None;
         sessions = year_sessions tz year (c_sessions collected);
         yearMessages = year_messages tz year (c_messages collected);
         acc = foldl (accumulate tz) accum_init yearMessages;
         streaks = calculateStreaks tz now (acc_dailyActivity acc) year
     in \<lparr>w_year = year, w_source = source,
          totalSessions = length sessions,
          totalMessages = length yearMessages,
          totalProjects = length (c_projects collected),
          totalInputTokens = acc_totalInputTokens acc,
          totalOutputTokens = acc_totalOutputTokens acc,
          totalTokens = acc_totalInputTokens acc + acc_totalOutputTokens acc,
          totalCost = acc_totalCost acc,
          maxStreak = st_maxStreak streaks,
          currentStreak = st_currentStreak streaks,
          maxStreakDays = st_maxStreakDays streaks,
          dailyActivity = acc_dailyActivity acc\<rparr>)"

section \<open>Notions used in the statements\<close>

text \<open>A message whose usage block, if there is one, carries no cost.\<close>

definition no_cost :: "MessageData \<Rightarrow> bool" where
  "no_cost m = (case m_usage m of None \<Rightarrow> True | Some u \<Rightarrow> u_cost_total u = None)"

text \<open>
  A decoded line passes the parser's guards when it has a type and a session id and the
  year filter lets it through.
\<close>

definition claude_accepted :: "int \<Rightarrow> int option \<Rightarrow> ClaudeLine \<Rightarrow> bool" where
  "claude_accepted tz year l =
    (cl_type l \<noteq> [] \<and> cl_sessionId l \<noteq> [] \<and> \<not> year_excludes tz year (cl_timestamp l))"

text \<open>The line is a user or an assistant turn.\<close>

definition claude_is_turn :: "ClaudeLine \<Rightarrow> bool" where
  "claude_is_turn l = (cl_type l = ''user'' \<or> cl_type l = ''assistant'')"

text \<open>The decoded lines of a file that pass the guards, in file order.\<close>

definition claude_accepted_lines ::
  "int \<Rightarrow> int option \<Rightarrow> ClaudeLine option list \<Rightarrow> ClaudeLine list" where
  "claude_accepted_lines tz year lines =
    filter (claude_accepted tz year) (List.map_filter (\<lambda>l. l) lines)"

text \<open>Every entry of a session map is stored under the id of its session.\<close>

definition keyed_by_id :: "(string \<times> SessionData) list \<Rightarrow> bool" where
  "keyed_by_id m = list_all (\<lambda>(k, s). s_id s = k) m"


text \<open>
  \<open>is_run ds s e\<close>: the indices \<open>s\<close> to \<open>e\<close> (inclusive) of the sorted active dates form a
  run, that is, each date in the range is followed by the next calendar day, by the
  test of the scan.
\<close>

definition is_run :: "string list \<Rightarrow> nat \<Rightarrow> nat \<Rightarrow> bool" where
  "is_run ds s e =
    (s \<le> e \<and> e < length ds \<and> list_all (\<lambda>j. diffDays (ds ! j) (ds ! Suc j) = Some 1) [s..<e])"

text \<open>
  The invariant of the scan before it visits index \<open>i\<close>: the temporary run is the longest
  run that ends at \<open>i - 1\<close>, and the recorded run is the first among the longest runs that
  end before \<open>i\<close>.
\<close>

definition scan_inv :: "string list \<Rightarrow> nat \<Rightarrow> StreakScan \<Rightarrow> bool" where
  "scan_inv ds i st \<longleftrightarrow>
    0 < i \<and> i \<le> length ds \<and>
    sc_tempStreakStart st < i \<and>
    sc_tempStreak st = i - sc_tempStreakStart st \<and>
    is_run ds (sc_tempStreakStart st) (i - 1) \<and>
    (\<forall>s. s < sc_tempStreakStart st \<longrightarrow> \<not> is_run ds s (i - 1)) \<and>
    is_run ds (sc_maxStreakStart st) (sc_maxStreakEnd st) \<and>
    sc_maxStreakEnd st < i \<and>
    sc_maxStreak st = sc_maxStreakEnd st + 1 - sc_maxStreakStart st \<and>
    (\<forall>s e. is_run ds s e \<and> e < i \<longrightarrow> e + 1 - s \<le> sc_maxStreak st) \<and>
    (\<forall>s e. is_run ds s e \<and> e < i \<and> e + 1 - s = sc_maxStreak st \<longrightarrow> sc_maxStreakStart st \<le> s)"

text \<open>\<open>consecutive_days a b\<close>: the date key \<open>b\<close> is the calendar day after the date key \<open>a\<close>.\<close>

definition consecutive_days :: "string \<Rightarrow> string \<Rightarrow> bool" where
  "consecutive_days a b =
    (case (parseDateKey a, parseDateKey b) of
       (Some p, Some c) \<Rightarrow> c - p = ms_per_day
     | _ \<Rightarrow> False)"

text \<open>
  The year-of-era and the date within an era, as \<^const>\<open>civil_from_days\<close> computes them.
\<close>

definition yoe_of :: "int \<Rightarrow> int" where
  "yoe_of doe = (doe - doe div 1460 + doe div 36524 - doe div 146096) div 365"

definition civil_of_era_doe :: "int \<Rightarrow> int \<Rightarrow> int \<times> int \<times> int" where
  "civil_of_era_doe era doe =
    (let yoe = yoe_of doe;
         doy = doe - (365 * yoe + yoe div 4 - yoe div 100);
         mp = (5 * doy + 2) div 153;
         d = doy - (153 * mp + 2) div 5 + 1;
         m = (if mp < 10 then mp + 3 else mp - 9)
     in (yoe + era * 400 + (if m \<le> 2 then 1 else 0), m, d))"

text \<open>The daily-activity key of a message.\<close>

definition dateKey_of :: "int \<Rightarrow> MessageData \<Rightarrow> string" where
  "dateKey_of tz m =
    (case m_timestamp m of None \<Rightarrow> ''NaN-NaN-NaN'' | Some t \<Rightarrow> formatDateKey tz t)"

text \<open>
  The project map holds one entry per working directory of the sessions collected so far.
\<close>

definition projects_cover :: "(string \<times> nat) list \<Rightarrow> SessionData list \<Rightarrow> bool" where
  "projects_cover projectMap sessions =
    (distinct (map fst projectMap) \<and> fst ` set projectMap = s_cwd ` set sessions)"

section \<open>Example inputs\<close>

text \<open>
  Concrete files, maps and instants on which the statements below are evaluated.  The
  instants 1735646400000 and 1735732800000 are noon UTC of 2024-12-31 and of 2025-01-01.
\<close>

definition claude_cost_line :: ClaudeLine where
  "claude_cost_line =
    \<lparr>cl_type = ''assistant'', cl_sessionId = ''s1'', cl_cwd = ''/work'',
      cl_timestamp = Some 1735732800000,
      cl_message = Some \<lparr>cm_role = ''assistant'', cm_model = Some ''claude-x'',
        cm_usage = Some \<lparr>input_tokens = Some 10, output_tokens = Some 20,
          cache_read_input_tokens = None, cache_creation_input_tokens = None\<rparr>\<rparr>,
      cl_costUSD = Some (1 / 2)\<rparr>"

definition claude_cost_fs :: file_system where
  "claude_cost_fs =
    \<lparr>pi_files = [], claude_files = [Some [Some claude_cost_line]], codex_files = [],
      opencode_session_docs = [], opencode_message_docs = []\<rparr>"

definition pi_2024_file :: "pi_line list" where
  "pi_2024_file =
    [PiMessage (Some 1735732800000)
       (Some \<lparr>pmb_role = ''user'', pmb_provider = None, pmb_model = None, pmb_usage = None\<rparr>),
     PiSession \<lparr>psl_id = ''s1'', psl_timestamp = Some 1735646400000, psl_cwd = ''/a'',
       psl_provider = ''p'', psl_modelId = ''m''\<rparr>,
     PiMessage (Some 1735732800000)
       (Some \<lparr>pmb_role = ''assistant'', pmb_provider = None, pmb_model = None,
         pmb_usage = None\<rparr>)]"

definition codex_2024_file :: "codex_line list" where
  "codex_2024_file =
    [CodexResponseItem (Some 1735732800000) (Some ''user''),
     CodexSessionMeta (Some 1735646400000)
       (Some \<lparr>cmp_id = ''c1'', cmp_cwd = ''/a'', cmp_model_provider = None\<rparr>),
     CodexResponseItem (Some 1735732800000) (Some ''assistant'')]"

definition claude_system_line :: ClaudeLine where
  "claude_system_line =
    \<lparr>cl_type = ''system'', cl_sessionId = ''s1'', cl_cwd = ''/first'',
      cl_timestamp = Some 1735732800000, cl_message = None, cl_costUSD = None\<rparr>"

definition claude_user_line :: ClaudeLine where
  "claude_user_line =
    \<lparr>cl_type = ''user'', cl_sessionId = ''s1'', cl_cwd = ''/second'',
      cl_timestamp = Some 1735732860000,
      cl_message = Some \<lparr>cm_role = ''user'', cm_model = None, cm_usage = None\<rparr>,
      cl_costUSD = None\<rparr>"

definition claude_anonymous_line :: ClaudeLine where
  "claude_anonymous_line =
    \<lparr>cl_type = ''user'', cl_sessionId = [], cl_cwd = ''/first'',
      cl_timestamp = Some 1735732800000,
      cl_message = Some \<lparr>cm_role = ''user'', cm_model = None, cm_usage = None\<rparr>,
      cl_costUSD = None\<rparr>"

definition claude_example_file :: "ClaudeLine option list" where
  "claude_example_file = [Some claude_system_line, None, Some claude_user_line]"

definition claude_split_fs :: file_system where
  "claude_split_fs =
    \<lparr>pi_files = [], claude_files = [Some [Some claude_system_line], Some claude_example_file],
      codex_files = [], opencode_session_docs = [], opencode_message_docs = []\<rparr>"

definition pi_session_file :: "pi_line list" where
  "pi_session_file =
    [PiSession \<lparr>psl_id = ''s1'', psl_timestamp = Some 1735732800000, psl_cwd = ''/a'',
       psl_provider = ''p'', psl_modelId = ''m''\<rparr>]"

definition codex_session_file :: "codex_line list" where
  "codex_session_file =
    [CodexSessionMeta (Some 1735732800000)
       (Some \<lparr>cmp_id = ''c1'', cmp_cwd = ''/a'', cmp_model_provider = None\<rparr>)]"

definition opencode_session_doc :: OpenCodeSession where
  "opencode_session_doc =
    \<lparr>ocs_id = ''o1'', ocs_projectID = ''p1'', ocs_directory = ''/a'',
      ocs_time_created = Some 1735732800000\<rparr>"

definition copied_fs :: file_system where
  "copied_fs =
    \<lparr>pi_files = [Some pi_session_file, Some pi_session_file], claude_files = [],
      codex_files = [Some codex_session_file, Some codex_session_file],
      opencode_session_docs = [Some opencode_session_doc, Some opencode_session_doc],
      opencode_message_docs = []\<rparr>"




definition spec_activity :: "(string \<times> nat) list" where
  "spec_activity = [(''2025-01-04'', 1), (''2025-01-01'', 1), (''2025-01-02'', 1)]"

definition tie_activity :: "(string \<times> nat) list" where
  "tie_activity =
    [(''2025-01-04'', 1), (''2025-01-01'', 1), (''2025-01-05'', 2), (''2025-01-02'', 1),
     (''2024-12-31'', 3)]"

definition year_boundary_fs :: file_system where
  "year_boundary_fs =
    \<lparr>pi_files =
       [Some [PiSession \<lparr>psl_id = ''s1'', psl_timestamp = Some 1735646400000, psl_cwd = ''/a'',
                psl_provider = ''p'', psl_modelId = ''m''\<rparr>,
              PiMessage (Some 1735646400000)
                (Some \<lparr>pmb_role = ''user'', pmb_provider = None, pmb_model = None,
                  pmb_usage = None\<rparr>),
              PiMessage (Some 1735732800000)
                (Some \<lparr>pmb_role = ''assistant'', pmb_provider = None, pmb_model = None,
                  pmb_usage = None\<rparr>)]],
     claude_files = [], codex_files = [], opencode_session_docs = [],
     opencode_message_docs = []\<rparr>"

definition two_year_fs :: file_system where
  "two_year_fs =
    \<lparr>pi_files =
       [Some [PiSession \<lparr>psl_id = ''s-2024'', psl_timestamp = Some 1718452800000,
                psl_cwd = ''/old'', psl_provider = ''p'', psl_modelId = ''m''\<rparr>],
        Some [PiSession \<lparr>psl_id = ''s-2025'', psl_timestamp = Some 1735732800000,
                psl_cwd = ''/new'', psl_provider = ''p'', psl_modelId = ''m''\<rparr>]],
     claude_files = [], codex_files = [], opencode_session_docs = [],
     opencode_message_docs = []\<rparr>"

section \<open>Properties\<close>

subsection \<open>Daily activity counts every message once\<close>

lemma sum_map_incr: "sum_list (map snd (map_incr k m)) = sum_list (map snd m) + 1"
  unfolding map_incr_def by (induction m) auto

lemma accumulate_dailyActivity:
  "acc_dailyActivity (accumulate tz acc message) =
    map_incr (case m_timestamp message of None \<Rightarrow> ''NaN-NaN-NaN'' | Some t \<Rightarrow> formatDateKey tz t)
      (acc_dailyActivity acc)"
  unfolding accumulate_def Let_def by (simp split: option.splits)

lemma sum_dailyActivity_foldl:
  "sum_list (map snd (acc_dailyActivity (foldl (accumulate tz) acc ms))) =
    sum_list (map snd (acc_dailyActivity acc)) + length ms"
  by (induction ms arbitrary: acc) (simp_all add: accumulate_dailyActivity sum_map_incr)

lemma calculateStats_dailyActivity:
  "dailyActivity (calculateStats tz now fs year source) =
    acc_dailyActivity (foldl (accumulate tz) accum_init
      (year_messages tz year (c_messages (collectAll tz source fs None))))"
  unfolding calculateStats_def Let_def by simp

lemma calculateStats_totalMessages:
  "totalMessages (calculateStats tz now fs year source) =
    length (year_messages tz year (c_messages (collectAll tz source fs None)))"
  unfolding calculateStats_def Let_def by simp

text \<open>
  C9.  For every file system, clock, target year and source, the values of the
  \<open>dailyActivity\<close> map that \<open>calculateStats\<close> returns add up to the number of collected
  messages whose timestamp falls in the target year, and \<open>totalMessages\<close> is that same
  number: each message of the year adds one to exactly one bucket, whatever its role.
\<close>

theorem daily_activity_sums_to_total_messages:
  "sum_list (map snd (dailyActivity (calculateStats tz now fs year source))) =
     length (filter (\<lambda>m. in_year tz year (m_timestamp m))
       (c_messages (collectAll tz source fs None))) \<and>
   totalMessages (calculateStats tz now fs year source) =
     length (filter (\<lambda>m. in_year tz year (m_timestamp m))
       (c_messages (collectAll tz source fs None)))"
  unfolding calculateStats_dailyActivity calculateStats_totalMessages sum_dailyActivity_foldl
  by (simp add: accum_init_def year_messages_def)

theorem daily_activity_sums_to_total_messages_witness:
  "length (c_messages (collectAll 0 Src_pi year_boundary_fs None)) = 2 \<and>
   length (filter (\<lambda>m. in_year 0 2025 (m_timestamp m))
     (c_messages (collectAll 0 Src_pi year_boundary_fs None))) = 1 \<and>
   dailyActivity (calculateStats 0 1735736400000 year_boundary_fs 2025 Src_pi) =
     [(''2025-01-01'', 1)] \<and>
   sum_list (map snd (dailyActivity (calculateStats 0 1735736400000 year_boundary_fs 2025 Src_pi))) = 1 \<and>
   totalMessages (calculateStats 0 1735736400000 year_boundary_fs 2025 Src_pi) = 1"
proof -
  have a: "length (c_messages (collectAll 0 Src_pi year_boundary_fs None)) = 2" by code_simp
  have b: "length (filter (\<lambda>m. in_year 0 2025 (m_timestamp m))
     (c_messages (collectAll 0 Src_pi year_boundary_fs None))) = 1" by code_simp
  have c: "dailyActivity (calculateStats 0 1735736400000 year_boundary_fs 2025 Src_pi) =
     [(''2025-01-01'', 1)]" by code_simp
  note t = daily_activity_sums_to_total_messages [of 0 1735736400000 year_boundary_fs 2025 Src_pi]
  have d: "sum_list (map snd (dailyActivity
      (calculateStats 0 1735736400000 year_boundary_fs 2025 Src_pi))) = 1"
    using t [THEN conjunct1] by (simp only: b)
  have e: "totalMessages (calculateStats 0 1735736400000 year_boundary_fs 2025 Src_pi) = 1"
    using t [THEN conjunct2] by (simp only: b)
  show ?thesis by (intro conjI) (rule a b c d e)+
qed

subsection \<open>Where a cost can come from\<close>

lemma parseClaudeLines_no_cost:
  "list_all no_cost ms \<Longrightarrow> list_all no_cost (snd (parseClaudeLines tz year lines ss ms))"
proof (induction lines arbitrary: ss ms)
  case Nil
  then show ?case by simp
next
  case (Cons l lines)
  have new: "no_cost (claude_message_of p)" for p
    by (simp add: no_cost_def claude_message_of_def Let_def split: option.splits)
  show ?case
  proof (cases l)
    case None
    with Cons show ?thesis by simp
  next
    case (Some p)
    with Cons.prems new show ?thesis by (auto simp: Let_def intro!: Cons.IH)
  qed
qed

lemma attach_usage_no_cost:
  "list_all no_cost ms \<Longrightarrow> i \<le> length ms \<Longrightarrow> list_all no_cost (attach_usage i u ms)"
proof (induction i)
  case 0
  then show ?case by simp
next
  case (Suc i)
  have "no_cost ((ms ! i)\<lparr>m_usage := Some (codex_usage u)\<rparr>)"
    by (simp add: no_cost_def codex_usage_def)
  with Suc show ?case
    by (auto simp: list_all_iff dest!: set_update_subset_insert[THEN subsetD])
qed

lemma parseCodexLines_no_cost:
  "list_all no_cost ms \<Longrightarrow> list_all no_cost (snd (parseCodexLines tz year lines s ms))"
proof (induction lines arbitrary: s ms)
  case Nil
  then show ?case by simp
next
  case (Cons l lines)
  show ?case
  proof (cases l)
    case (CodexSessionMeta ts payload)
    with Cons show ?thesis by (auto split: option.splits)
  next
    case (CodexResponseItem ts role)
    have "no_cost \<lparr>m_sessionId = a, m_role = b, m_timestamp = c, m_provider = d, m_modelId = e,
        m_usage = None, m_source = f\<rparr>" for a b c d e f
      by (simp add: no_cost_def)
    with CodexResponseItem Cons.prems show ?thesis
      by (auto split: option.splits intro!: Cons.IH)
  next
    case (CodexTokenCount usage)
    with Cons.prems show ?thesis
      by (auto split: option.splits intro!: Cons.IH attach_usage_no_cost)
  next
    case CodexOther
    with Cons show ?thesis by simp
  qed
qed

lemma collect_claude_no_cost:
  "list_all no_cost (fst (snd st)) \<Longrightarrow>
    list_all no_cost (fst (snd (foldl (collect_claude_file tz year) st files)))"
proof (induction files arbitrary: st)
  case Nil
  then show ?case by simp
next
  case (Cons f files)
  obtain a b c where st: "st = (a, b, c)" by (cases st)
  have "list_all no_cost (snd (parseClaudeFile tz year f))"
    unfolding parseClaudeFile_def using parseClaudeLines_no_cost[of "[]"]
    by (simp split: option.splits)
  with Cons.prems st have "list_all no_cost (fst (snd (collect_claude_file tz year st f)))"
    by (auto simp: collect_claude_file_def split: prod.splits)
  then show ?case by (simp add: Cons.IH)
qed

lemma collect_codex_no_cost:
  "list_all no_cost (fst (snd st)) \<Longrightarrow>
    list_all no_cost (fst (snd (foldl (collect_codex_file tz year) st files)))"
proof (induction files arbitrary: st)
  case Nil
  then show ?case by simp
next
  case (Cons f files)
  obtain a b c where st: "st = (a, b, c)" by (cases st)
  have "list_all no_cost (snd (parseCodexFile tz year f))"
    unfolding parseCodexFile_def using parseCodexLines_no_cost[of "[]"]
    by (simp split: option.splits)
  with Cons.prems st have "list_all no_cost (fst (snd (collect_codex_file tz year st f)))"
    by (auto simp: collect_codex_file_def split: prod.splits option.splits)
  then show ?case by (simp add: Cons.IH)
qed

lemma collectOpenCode_session_messages:
  "fst (snd (foldl (collectOpenCode_session tz year) st docs)) = fst (snd st)"
  by (induction docs arbitrary: st)
    (auto simp: collectOpenCode_session_def split: prod.splits option.splits)

lemma collectOpenCode_message_no_cost:
  "list_all no_cost (fst (snd st)) \<Longrightarrow>
    list_all no_cost (fst (snd (foldl (collectOpenCode_message tz year) st docs)))"
proof (induction docs arbitrary: st)
  case Nil
  then show ?case by simp
next
  case (Cons d docs)
  obtain a b c where st: "st = (a, b, c)" by (cases st)
  from Cons.prems st
  have "list_all no_cost (fst (snd (collectOpenCode_message tz year st d)))"
    by (auto simp: collectOpenCode_message_def no_cost_def list_all_iff split: option.splits)
  then show ?case by (simp add: Cons.IH)
qed

lemma collectAll_no_cost:
  assumes "source \<noteq> Src_pi"
  shows "list_all no_cost (c_messages (collectAll tz source fs year))"
proof (cases source)
  case Src_pi
  with assms show ?thesis by simp
next
  case Src_codex
  have "list_all no_cost (fst (snd (foldl (collect_codex_file tz year) ([], [], []) (codex_files fs))))"
    by (rule collect_codex_no_cost) simp
  with Src_codex show ?thesis by (auto simp: collectAll_def split: prod.splits)
next
  case Src_claude
  have "list_all no_cost (fst (snd (foldl (collect_claude_file tz year) ([], [], []) (claude_files fs))))"
    by (rule collect_claude_no_cost) simp
  with Src_claude show ?thesis by (auto simp: collectAll_def split: prod.splits)
next
  case Src_opencode
  have "list_all no_cost (fst (snd (foldl (collectOpenCode_message tz year)
      (foldl (collectOpenCode_session tz year) ([], [], []) (opencode_session_docs fs))
      (opencode_message_docs fs))))"
    by (rule collectOpenCode_message_no_cost) (simp add: collectOpenCode_session_messages)
  with Src_opencode show ?thesis
    by (auto simp: collectAll_def collectOpenCode_def Let_def split: prod.splits)
qed

lemma accumulate_no_cost:
  "no_cost m \<Longrightarrow> acc_totalCost (accumulate tz acc m) = acc_totalCost acc"
  unfolding accumulate_def Let_def no_cost_def by (auto split: option.splits)

lemma foldl_accumulate_no_cost:
  "list_all no_cost ms \<Longrightarrow>
    acc_totalCost (foldl (accumulate tz) acc ms) = acc_totalCost acc"
  by (induction ms arbitrary: acc) (simp_all add: accumulate_no_cost)

lemma calculateStats_totalCost:
  "totalCost (calculateStats tz now fs year source) =
    acc_totalCost (foldl (accumulate tz) accum_init
      (year_messages tz year (c_messages (collectAll tz source fs None))))"
  unfolding calculateStats_def Let_def by simp

text \<open>
  C6.  The \<open>totalCost\<close> that \<open>calculateStats\<close> computes can differ from zero only for the
  Pi source: the loop adds \<open>usage.cost.total\<close> only, and the usage blocks that the Claude,
  Codex and OpenCode parsers build never carry a cost (the Claude line's \<open>costUSD\<close> and
  the OpenCode message's \<open>cost\<close> are not copied).  So \<open>totalCost\<close> is 0 for these three
  sources.
\<close>

theorem total_cost_zero_unless_pi:
  assumes "source \<noteq> Src_pi"
  shows "totalCost (calculateStats tz now fs year source) = 0"
proof -
  have "list_all no_cost (c_messages (collectAll tz source fs None))"
    using assms by (rule collectAll_no_cost)
  then have "list_all no_cost (year_messages tz year (c_messages (collectAll tz source fs None)))"
    by (simp add: year_messages_def list_all_iff)
  then show ?thesis
    unfolding calculateStats_totalCost by (simp add: foldl_accumulate_no_cost accum_init_def)
qed

theorem total_cost_zero_unless_pi_witness:
  "Src_claude \<noteq> Src_pi \<and>
   totalMessages (calculateStats 0 1735732800000 claude_cost_fs 2025 Src_claude) = 1 \<and>
   totalOutputTokens (calculateStats 0 1735732800000 claude_cost_fs 2025 Src_claude) = 20 \<and>
   totalCost (calculateStats 0 1735732800000 claude_cost_fs 2025 Src_claude) = 0"
proof -
  have "totalMessages (calculateStats 0 1735732800000 claude_cost_fs 2025 Src_claude) = 1"
    by code_simp
  moreover
  have "totalOutputTokens (calculateStats 0 1735732800000 claude_cost_fs 2025 Src_claude) = 20"
    by code_simp
  ultimately show ?thesis
    using total_cost_zero_unless_pi [of Src_claude 0 1735732800000 claude_cost_fs 2025]
    by simp
qed

subsection \<open>Abandoning a file whose session line fails the year filter\<close>

lemma parsePiLines_abandon:
  "PiSession raw \<in> set lines \<Longrightarrow> year_excludes tz year (psl_timestamp raw) \<Longrightarrow>
    parsePiLines tz year lines session messages = (None, [])"
proof (induction lines arbitrary: session messages)
  case Nil
  then show ?case by simp
next
  case (Cons l lines)
  show ?case
  proof (cases l)
    case (PiSession raw')
    show ?thesis
    proof (cases "year_excludes tz year (psl_timestamp raw')")
      case True
      with PiSession show ?thesis by simp
    next
      case False
      with Cons.prems PiSession have "PiSession raw \<in> set lines" by auto
      with Cons PiSession False show ?thesis by simp
    qed
  next
    case (PiMessage ts body)
    with Cons show ?thesis by (auto split: option.splits)
  next
    case PiOther
    with Cons show ?thesis by auto
  qed
qed

lemma parseCodexLines_abandon:
  "CodexSessionMeta ts payload \<in> set lines \<Longrightarrow> year_excludes tz year ts \<Longrightarrow>
    parseCodexLines tz year lines session messages = (None, [])"
proof (induction lines arbitrary: session messages)
  case Nil
  then show ?case by simp
next
  case (Cons l lines)
  show ?case
  proof (cases l)
    case (CodexSessionMeta ts' payload')
    show ?thesis
    proof (cases "year_excludes tz year ts'")
      case True
      with CodexSessionMeta show ?thesis by simp
    next
      case False
      with Cons.prems CodexSessionMeta have "CodexSessionMeta ts payload \<in> set lines" by auto
      with Cons CodexSessionMeta False show ?thesis by (simp split: option.splits)
    qed
  next
    case (CodexResponseItem ts' role)
    with Cons show ?thesis by (auto split: option.splits)
  next
    case (CodexTokenCount usage)
    with Cons show ?thesis by (auto split: option.splits)
  next
    case CodexOther
    with Cons show ?thesis by auto
  qed
qed

text \<open>
  C10.  For a Pi file and for a Codex file: when a year filter is supplied (a year that the
  source's test \<open>year && \<dots>\<close> takes as present, that is, not 0) and a session-defining line
  of the file (\<open>session\<close>, resp. \<open>session_meta\<close>) has a year different from the filter, the
  parser returns the empty result for the whole file: no session and no messages, also
  none of the message lines that came before the session line.
\<close>

theorem year_mismatch_abandons_file:
  assumes "year = Some y" and "y \<noteq> 0" and "\<not> in_year tz y ts"
  shows "(PiSession raw \<in> set pi_lines \<and> psl_timestamp raw = ts \<longrightarrow>
            parsePiFile tz year (Some pi_lines) = (None, [])) \<and>
         (CodexSessionMeta ts payload \<in> set codex_lines \<longrightarrow>
            parseCodexFile tz year (Some codex_lines) = (None, []))"
proof -
  have ex: "year_excludes tz year ts" using assms by (simp add: year_excludes_def)
  show ?thesis
    using ex by (auto simp: parsePiFile_def parseCodexFile_def
        intro: parsePiLines_abandon parseCodexLines_abandon)
qed

theorem year_mismatch_abandons_file_witness:
  "\<not> in_year 0 2025 (Some 1735646400000) \<and>
   in_year 0 2025 (Some 1735732800000) \<and>
   pi_2024_file ! 1 \<in> set pi_2024_file \<and>
   codex_2024_file ! 1 \<in> set codex_2024_file \<and>
   parsePiFile 0 (Some 2025) (Some pi_2024_file) = (None, []) \<and>
   parseCodexFile 0 (Some 2025) (Some codex_2024_file) = (None, []) \<and>
   length (snd (parsePiFile 0 None (Some pi_2024_file))) = 2"
proof -
  have a: "\<not> in_year 0 2025 (Some 1735646400000)" by code_simp
  have b: "in_year 0 2025 (Some 1735732800000)" by code_simp
  have c: "length (snd (parsePiFile 0 None (Some pi_2024_file))) = 2" by code_simp
  have d: "PiSession \<lparr>psl_id = ''s1'', psl_timestamp = Some 1735646400000, psl_cwd = ''/a'',
       psl_provider = ''p'', psl_modelId = ''m''\<rparr> \<in> set pi_2024_file"
    "CodexSessionMeta (Some 1735646400000)
       (Some \<lparr>cmp_id = ''c1'', cmp_cwd = ''/a'', cmp_model_provider = None\<rparr>) \<in> set codex_2024_file"
    by (simp_all add: pi_2024_file_def codex_2024_file_def)
  have e: "pi_2024_file ! 1 \<in> set pi_2024_file" "codex_2024_file ! 1 \<in> set codex_2024_file"
    by (simp_all add: pi_2024_file_def codex_2024_file_def)
  from year_mismatch_abandons_file [OF refl _ a, of
      "\<lparr>psl_id = ''s1'', psl_timestamp = Some 1735646400000, psl_cwd = ''/a'',
         psl_provider = ''p'', psl_modelId = ''m''\<rparr>" pi_2024_file
      "Some \<lparr>cmp_id = ''c1'', cmp_cwd = ''/a'', cmp_model_provider = None\<rparr>" codex_2024_file]
  have "parsePiFile 0 (Some 2025) (Some pi_2024_file) = (None, [])"
       "parseCodexFile 0 (Some 2025) (Some codex_2024_file) = (None, [])"
    using d by simp_all
  with a b c e show ?thesis by simp
qed

subsection \<open>The Claude parser: which lines register a session, which yield a message\<close>

lemma update_absent: "map_of m k = None \<Longrightarrow> AList.update k v m = m @ [(k, v)]"
  by (induction m) (auto split: if_splits)

lemma claude_accepted_lines_simps:
  "claude_accepted_lines tz year [] = []"
  "claude_accepted_lines tz year (None # lines) = claude_accepted_lines tz year lines"
  "claude_accepted_lines tz year (Some p # lines) =
    (if claude_accepted tz year p then p # claude_accepted_lines tz year lines
     else claude_accepted_lines tz year lines)"
  by (simp_all add: claude_accepted_lines_def)

lemma parseClaudeLines_messages:
  "snd (parseClaudeLines tz year lines ss ms) =
    ms @ map claude_message_of (filter claude_is_turn (claude_accepted_lines tz year lines))"
proof (induction lines arbitrary: ss ms)
  case Nil
  then show ?case by (simp add: claude_accepted_lines_simps)
next
  case (Cons l lines)
  show ?case
  proof (cases l)
    case None
    then show ?thesis using Cons by (simp add: claude_accepted_lines_simps)
  next
    case (Some p)
    then show ?thesis using Cons
      by (simp add: claude_accepted_lines_simps claude_accepted_def claude_is_turn_def Let_def)
  qed
qed

lemma parseClaudeLines_sessions:
  "map_of (fst (parseClaudeLines tz year lines ss ms)) sid =
    (case map_of ss sid of
       Some s \<Rightarrow> Some s
     | None \<Rightarrow> map_option claude_session_of
         (find (\<lambda>l. cl_sessionId l = sid) (claude_accepted_lines tz year lines)))"
proof (induction lines arbitrary: ss ms)
  case Nil
  then show ?case
    by (simp add: claude_accepted_lines_simps split: option.splits)
next
  case (Cons l lines)
  show ?case
  proof (cases l)
    case None
    then show ?thesis by (simp add: Cons.IH claude_accepted_lines_simps cong: option.case_cong)
  next
    case (Some p)
    show ?thesis
    proof (cases "claude_accepted tz year p")
      case False
      then have "parseClaudeLines tz year (l # lines) ss ms = parseClaudeLines tz year lines ss ms"
        using Some by (auto simp: claude_accepted_def)
      then show ?thesis using False Some
        by (simp add: Cons.IH claude_accepted_lines_simps cong: option.case_cong)
    next
      case True
      show ?thesis
      proof (cases "map_has ss (cl_sessionId p)")
        case has: True
        then have "parseClaudeLines tz year (l # lines) ss ms =
            parseClaudeLines tz year lines ss
              (if claude_is_turn p then ms @ [claude_message_of p] else ms)"
          using Some True by (simp add: claude_accepted_def claude_is_turn_def Let_def)
        then show ?thesis using True Some has
          by (auto simp: Cons.IH claude_accepted_lines_simps map_has_def split: option.splits)
      next
        case nohas: False
        then have "parseClaudeLines tz year (l # lines) ss ms =
            parseClaudeLines tz year lines
              (AList.update (cl_sessionId p) (claude_session_of p) ss)
              (if claude_is_turn p then ms @ [claude_message_of p] else ms)"
          using Some True by (simp add: claude_accepted_def claude_is_turn_def Let_def)
        then show ?thesis using True Some nohas
          by (auto simp: Cons.IH claude_accepted_lines_simps map_has_def update_conv'
              split: option.splits)
      qed
    qed
  qed
qed

lemma parseClaudeLines_distinct:
  "distinct (map fst ss) \<Longrightarrow> distinct (map fst (fst (parseClaudeLines tz year lines ss ms)))"
proof (induction lines arbitrary: ss ms)
  case Nil
  then show ?case by simp
next
  case (Cons l lines)
  show ?case
  proof (cases l)
    case None
    then show ?thesis using Cons by simp
  next
    case (Some p)
    then show ?thesis using Cons.prems
      by (auto simp: Let_def intro!: Cons.IH distinct_update)
  qed
qed

text \<open>
  C3, as amended.  For every file of the Claude variant: a session record is registered
  exactly once per session id, first-seen-wins, the first time the id appears on a line
  that has a type and a session id and that the year filter (if any) lets through,
  whatever the type of that line; and the lines of this kind whose type is \<open>user\<close> or
  \<open>assistant\<close> yield one message each, in file order, and no other line yields one.
\<close>

theorem claude_sessions_first_seen:
  "distinct (map fst (fst (parseClaudeFile tz year (Some lines)))) \<and>
   map_of (fst (parseClaudeFile tz year (Some lines))) sid =
     map_option claude_session_of
       (find (\<lambda>l. cl_sessionId l = sid) (claude_accepted_lines tz year lines)) \<and>
   snd (parseClaudeFile tz year (Some lines)) =
     map claude_message_of (filter claude_is_turn (claude_accepted_lines tz year lines))"
  unfolding parseClaudeFile_def
  by (simp add: parseClaudeLines_messages parseClaudeLines_sessions parseClaudeLines_distinct)

theorem claude_sessions_first_seen_witness:
  "map_of (fst (parseClaudeFile 0 None (Some claude_example_file))) ''s1'' =
     Some (claude_session_of claude_system_line) \<and>
   s_cwd (claude_session_of claude_system_line) = ''/first'' \<and>
   snd (parseClaudeFile 0 None (Some claude_example_file)) = [claude_message_of claude_user_line]"
proof -
  have acc: "claude_accepted_lines 0 None claude_example_file =
      [claude_system_line, claude_user_line]"
    by (simp add: claude_example_file_def claude_accepted_lines_simps claude_accepted_def
        year_excludes_def claude_system_line_def claude_user_line_def)
  have "find (\<lambda>l. cl_sessionId l = ''s1'') [claude_system_line, claude_user_line] =
      Some claude_system_line"
    by (simp add: claude_system_line_def)
  moreover have "filter claude_is_turn [claude_system_line, claude_user_line] = [claude_user_line]"
    by (simp add: claude_is_turn_def claude_system_line_def claude_user_line_def)
  moreover have "s_cwd (claude_session_of claude_system_line) = ''/first''"
    by (simp add: claude_session_of_def claude_system_line_def)
  ultimately show ?thesis
    using claude_sessions_first_seen [of 0 None claude_example_file "''s1''"]
    by (simp add: acc)
qed

text \<open>
  The claim as first stated says that only \<open>user\<close> and \<open>assistant\<close> lines register a
  session, and that every such line yields a message.  A file holding a single \<open>system\<close>
  line registers its session and yields no message; a file holding a single \<open>user\<close> line
  without a session id yields nothing.
\<close>

theorem claude_other_line_registers_session:
  "\<not> claude_is_turn claude_system_line \<and>
   map fst (fst (parseClaudeFile 0 None (Some [Some claude_system_line]))) = [''s1''] \<and>
   snd (parseClaudeFile 0 None (Some [Some claude_system_line])) = [] \<and>
   claude_is_turn claude_anonymous_line \<and>
   parseClaudeFile 0 None (Some [Some claude_anonymous_line]) = ([], [])"
  by (simp add: claude_is_turn_def claude_system_line_def claude_anonymous_line_def
      parseClaudeFile_def year_excludes_def map_has_def)

subsection \<open>Session identifiers after the merge\<close>

lemma keyed_by_id_update:
  "keyed_by_id m \<Longrightarrow> \<not> map_has m k \<Longrightarrow> s_id s = k \<Longrightarrow> keyed_by_id (AList.update k s m)"
  by (simp add: keyed_by_id_def map_has_def update_absent)

lemma parseClaudeLines_keyed:
  "keyed_by_id ss \<Longrightarrow> keyed_by_id (fst (parseClaudeLines tz year lines ss ms))"
proof (induction lines arbitrary: ss ms)
  case Nil
  then show ?case by simp
next
  case (Cons l lines)
  show ?case
  proof (cases l)
    case None
    then show ?thesis using Cons by simp
  next
    case (Some p)
    have "s_id (claude_session_of p) = cl_sessionId p" by (simp add: claude_session_of_def)
    then show ?thesis using Cons.prems Some
      by (auto simp: Let_def intro!: Cons.IH keyed_by_id_update)
  qed
qed

lemma merge_claude_sessions_inv:
  "keyed_by_id fileSessions \<Longrightarrow> keyed_by_id allSessions \<Longrightarrow> distinct (map fst allSessions) \<Longrightarrow>
    keyed_by_id (fst (merge_claude_sessions fileSessions allSessions projectMap)) \<and>
    distinct (map fst (fst (merge_claude_sessions fileSessions allSessions projectMap)))"
proof (induction fileSessions arbitrary: allSessions projectMap)
  case Nil
  then show ?case by simp
next
  case (Cons e fileSessions)
  obtain k s where e: "e = (k, s)" by (cases e)
  with Cons.prems have ks: "s_id s = k" and rest: "keyed_by_id fileSessions"
    by (simp_all add: keyed_by_id_def)
  show ?case
  proof (cases "map_has allSessions k")
    case True
    then show ?thesis using Cons.IH[OF rest Cons.prems(2,3)] e by simp
  next
    case False
    have "keyed_by_id (AList.update k s allSessions)"
      using Cons.prems(2) False ks by (rule keyed_by_id_update)
    moreover have "distinct (map fst (AList.update k s allSessions))"
      using Cons.prems(3) by (rule distinct_update)
    ultimately show ?thesis using Cons.IH[OF rest] e False by simp
  qed
qed

lemma collect_claude_inv:
  "keyed_by_id (fst st) \<Longrightarrow> distinct (map fst (fst st)) \<Longrightarrow>
    keyed_by_id (fst (foldl (collect_claude_file tz year) st files)) \<and>
    distinct (map fst (fst (foldl (collect_claude_file tz year) st files)))"
proof (induction files arbitrary: st)
  case Nil
  then show ?case by simp
next
  case (Cons f files)
  obtain a b c where st: "st = (a, b, c)" by (cases st)
  have "keyed_by_id (fst (parseClaudeFile tz year f))"
    unfolding parseClaudeFile_def
    by (auto simp: keyed_by_id_def split: option.splits
        intro: parseClaudeLines_keyed[unfolded keyed_by_id_def])
  from merge_claude_sessions_inv[OF this, of a c] Cons.prems st
  have "keyed_by_id (fst (collect_claude_file tz year st f)) \<and>
      distinct (map fst (fst (collect_claude_file tz year st f)))"
    by (auto simp: collect_claude_file_def split: prod.splits)
  then show ?case using Cons.IH by simp
qed

lemma keyed_by_id_ids: "keyed_by_id m \<Longrightarrow> map (s_id \<circ> snd) m = map fst m"
  by (induction m) (auto simp: keyed_by_id_def)

text \<open>
  C4, as amended.  For the Claude source, whose merge step de-duplicates by session id,
  the sessions that \<open>collectAll\<close> returns have pairwise distinct identifiers, for every
  file system and year filter.  (The Pi, Codex and OpenCode branches append one record per
  file or document and do not de-duplicate.)
\<close>

theorem claude_session_ids_distinct:
  "distinct (map s_id (c_sessions (collectAll tz Src_claude fs year)))"
proof -
  have "keyed_by_id (fst (foldl (collect_claude_file tz year) ([], [], []) (claude_files fs))) \<and>
      distinct (map fst (fst (foldl (collect_claude_file tz year) ([], [], []) (claude_files fs))))"
    by (rule collect_claude_inv) (simp_all add: keyed_by_id_def)
  then show ?thesis
    by (auto simp: collectAll_def keyed_by_id_ids split: prod.splits)
qed

theorem claude_session_ids_distinct_witness:
  "map s_id (c_sessions (collectAll 0 Src_claude claude_split_fs None)) = [''s1''] \<and>
   length (c_messages (collectAll 0 Src_claude claude_split_fs None)) = 1 \<and>
   distinct (map s_id (c_sessions (collectAll 0 Src_claude claude_split_fs None)))"
proof -
  have "map s_id (c_sessions (collectAll 0 Src_claude claude_split_fs None)) = [''s1'']"
    by (simp add: collectAll_def claude_split_fs_def claude_example_file_def
        claude_system_line_def claude_user_line_def collect_claude_file_def parseClaudeFile_def
        year_excludes_def map_has_def claude_session_of_def Let_def)
  moreover have "length (c_messages (collectAll 0 Src_claude claude_split_fs None)) = 1"
    by (simp add: collectAll_def claude_split_fs_def claude_example_file_def
        claude_system_line_def claude_user_line_def collect_claude_file_def parseClaudeFile_def
        year_excludes_def map_has_def claude_session_of_def Let_def)
  ultimately show ?thesis
    using claude_session_ids_distinct [of 0 claude_split_fs None] by simp
qed

text \<open>
  The claim as first stated covers every source.  Two Pi files, two Codex files or two
  OpenCode session documents that declare the same session id give two session records
  with that id.
\<close>

theorem unmerged_session_ids_not_distinct:
  "map s_id (c_sessions (collectAll 0 Src_pi copied_fs None)) = [''s1'', ''s1''] \<and>
   \<not> distinct (map s_id (c_sessions (collectAll 0 Src_pi copied_fs None))) \<and>
   map s_id (c_sessions (collectAll 0 Src_codex copied_fs None)) = [''c1'', ''c1''] \<and>
   \<not> distinct (map s_id (c_sessions (collectAll 0 Src_codex copied_fs None))) \<and>
   map s_id (c_sessions (collectAll 0 Src_opencode copied_fs None)) = [''o1'', ''o1''] \<and>
   \<not> distinct (map s_id (c_sessions (collectAll 0 Src_opencode copied_fs None)))"
  by (simp add: collectAll_def copied_fs_def pi_session_file_def codex_session_file_def
      opencode_session_doc_def collect_pi_file_def collect_codex_file_def parsePiFile_def
      parseCodexFile_def collectOpenCode_def collectOpenCode_session_def year_excludes_def
      Let_def)

subsection \<open>Back-attaching a token count\<close>






subsection \<open>The max-streak scan\<close>

lemma is_run_iff:
  "is_run ds s e \<longleftrightarrow>
    s \<le> e \<and> e < length ds \<and> (\<forall>j. s \<le> j \<and> j < e \<longrightarrow> diffDays (ds ! j) (ds ! Suc j) = Some 1)"
  by (auto simp: is_run_def list_all_iff)

lemma is_run_single: "is_run ds s s \<longleftrightarrow> s < length ds"
  by (auto simp: is_run_iff)

lemma is_run_Suc:
  "is_run ds s (Suc e) \<longleftrightarrow>
    Suc e < length ds \<and>
    (s = Suc e \<or> (is_run ds s e \<and> diffDays (ds ! e) (ds ! Suc e) = Some 1))"
proof (cases "s = Suc e")
  case True
  then show ?thesis by (auto simp: is_run_iff)
next
  case False
  show ?thesis
  proof
    assume r: "is_run ds s (Suc e)"
    with False have "s \<le> e" by (simp add: is_run_iff)
    with r show "Suc e < length ds \<and>
        (s = Suc e \<or> (is_run ds s e \<and> diffDays (ds ! e) (ds ! Suc e) = Some 1))"
      by (simp add: is_run_iff)
  next
    assume "Suc e < length ds \<and>
        (s = Suc e \<or> (is_run ds s e \<and> diffDays (ds ! e) (ds ! Suc e) = Some 1))"
    with False have a: "Suc e < length ds" "is_run ds s e" "diffDays (ds ! e) (ds ! Suc e) = Some 1"
      by simp_all
    show "is_run ds s (Suc e)"
      unfolding is_run_iff
    proof (intro conjI allI impI)
      show "s \<le> Suc e" using a(2) by (simp add: is_run_iff)
      show "Suc e < length ds" by (rule a(1))
      fix j assume "s \<le> j \<and> j < Suc e"
      then show "diffDays (ds ! j) (ds ! Suc j) = Some 1"
        using a(2,3) by (cases "j = e") (auto simp: is_run_iff)
    qed
  qed
qed

lemma scan_inv_init: "ds \<noteq> [] \<Longrightarrow> scan_inv ds 1 scan_init"
  unfolding scan_inv_def scan_init_def
  by (auto simp: is_run_iff Suc_le_eq)

lemma scan_inv_step:
  assumes inv: "scan_inv ds (Suc k) st" and lt: "Suc k < length ds"
  shows "scan_inv ds (Suc (Suc k)) (scan_step ds (Suc k) st)"
proof -
  define tS where "tS = sc_tempStreakStart st"
  define mS where "mS = sc_maxStreakStart st"
  define mE where "mE = sc_maxStreakEnd st"
  define M where "M = sc_maxStreak st"
  define i where "i = Suc k"
  have I: "tS < Suc k \<and> sc_tempStreak st = Suc k - tS \<and> is_run ds tS k \<and>
      (\<forall>s. s < tS \<longrightarrow> \<not> is_run ds s k) \<and> is_run ds mS mE \<and> mE < Suc k \<and>
      M = mE + 1 - mS \<and> (\<forall>s e. is_run ds s e \<and> e < Suc k \<longrightarrow> e + 1 - s \<le> M) \<and>
      (\<forall>s e. is_run ds s e \<and> e < Suc k \<and> e + 1 - s = M \<longrightarrow> mS \<le> s)"
    using inv unfolding scan_inv_def tS_def mS_def mE_def M_def diff_Suc_1 by blast
  have tS: "tS \<le> k" using I by simp
  have t: "sc_tempStreak st = Suc k - tS" using I by simp
  have run_t: "is_run ds tS k" using I by simp
  have lm: "\<not> is_run ds s k" if "s < tS" for s using I that by blast
  have run_m: "is_run ds mS mE" using I by simp
  have mE: "mE \<le> k" using I by simp
  have M: "M = mE + 1 - mS" using I by simp
  have maxi: "e + 1 - s \<le> M" if "is_run ds s e" "e \<le> k" for s e
    using I that by (meson less_Suc_eq_le)
  have first0: "\<forall>s e. is_run ds s e \<and> e < Suc k \<and> e + 1 - s = M \<longrightarrow> mS \<le> s"
    using I by blast
  have first: "mS \<le> s" if "is_run ds s e" "e \<le> k" "e + 1 - s = M" for s e
  proof -
    have "e < Suc k" using that(2) by simp
    with that(1,3) have "is_run ds s e \<and> e < Suc k \<and> e + 1 - s = M" by blast
    then show ?thesis using first0[rule_format, of s e] by blast
  qed
  have mSE: "mS \<le> mE" using run_m by (simp add: is_run_iff)
  have M1: "1 \<le> M" using M mSE by simp
  have runs_i: "is_run ds s (Suc k) \<longleftrightarrow>
      s = Suc k \<or> (is_run ds s k \<and> diffDays (ds ! k) (ds ! Suc k) = Some 1)" for s
    using lt by (simp add: is_run_Suc)
  have run_le: "is_run ds s e \<Longrightarrow> s \<le> e" for s e by (simp add: is_run_iff)
  show ?thesis
  proof (cases "diffDays (ds ! k) (ds ! Suc k) = Some 1")
    case c: True
    have run_t': "is_run ds tS (Suc k)" using runs_i run_t c by simp
    have lm': "\<not> is_run ds s (Suc k)" if "s < tS" for s
      using that tS lm[OF that] runs_i by auto
    have end_i: "tS \<le> s" if "is_run ds s (Suc k)" for s
      using lm' that by (meson not_le)
    show ?thesis
    proof (cases "sc_tempStreak st + 1 > M")
      case gt: True
      have step: "scan_step ds (Suc k) st =
          st\<lparr>sc_tempStreak := sc_tempStreak st + 1, sc_maxStreak := sc_tempStreak st + 1,
             sc_maxStreakStart := tS, sc_maxStreakEnd := Suc k\<rparr>"
        using c gt by (simp add: scan_step_def Let_def M_def tS_def)
      have maxi': "e + 1 - s \<le> sc_tempStreak st + 1" if "is_run ds s e" "e \<le> Suc k" for s e
      proof (cases "e = Suc k")
        case True
        with that end_i[of s] t tS show ?thesis by auto
      next
        case False
        with that have "e \<le> k" by simp
        with maxi[OF that(1)] gt show ?thesis by simp
      qed
      have first': "tS \<le> s" if "is_run ds s e" "e \<le> Suc k" "e + 1 - s = sc_tempStreak st + 1" for s e
      proof (cases "e = Suc k")
        case True
        with that end_i[of s] show ?thesis by simp
      next
        case False
        with that have "e \<le> k" by simp
        with maxi[OF that(1)] gt that(3) show ?thesis by simp
      qed
      show ?thesis
        unfolding scan_inv_def step
        using lt tS t run_t' lm' maxi' first'
        by (auto simp: tS_def[symmetric] less_Suc_eq_le)
    next
      case le: False
      have step: "scan_step ds (Suc k) st = st\<lparr>sc_tempStreak := sc_tempStreak st + 1\<rparr>"
        using c le by (simp add: scan_step_def Let_def M_def)
      have maxi': "e + 1 - s \<le> M" if "is_run ds s e" "e \<le> Suc k" for s e
      proof (cases "e = Suc k")
        case True
        with that end_i[of s] t tS le show ?thesis by auto
      next
        case False
        with that have "e \<le> k" by simp
        with maxi[OF that(1)] show ?thesis by simp
      qed
      have first': "mS \<le> s" if "is_run ds s e" "e \<le> Suc k" "e + 1 - s = M" for s e
      proof (cases "e = Suc k")
        case True
        with that run_le[OF that(1)] M mSE mE show ?thesis by linarith
      next
        case False
        with that have "e \<le> k" by simp
        with first[OF that(1)] that(3) show ?thesis by simp
      qed
      show ?thesis
        unfolding scan_inv_def step
        using lt tS t run_t' lm' maxi' first' run_m mE M
        by (auto simp: tS_def[symmetric] mS_def[symmetric] mE_def[symmetric] M_def[symmetric]
            less_Suc_eq_le)
    qed
  next
    case nc: False
    have step: "scan_step ds (Suc k) st = st\<lparr>sc_tempStreak := 1, sc_tempStreakStart := Suc k\<rparr>"
      using nc by (simp add: scan_step_def)
    have only: "s = Suc k" if "is_run ds s (Suc k)" for s
      using that runs_i nc by simp
    have maxi': "e + 1 - s \<le> M" if "is_run ds s e" "e \<le> Suc k" for s e
    proof (cases "e = Suc k")
      case True
      with that only[of s] M1 show ?thesis by auto
    next
      case False
      with that have "e \<le> k" by simp
      with maxi[OF that(1)] show ?thesis by simp
    qed
    have first': "mS \<le> s" if "is_run ds s e" "e \<le> Suc k" "e + 1 - s = M" for s e
    proof (cases "e = Suc k")
      case True
      with that only[of s] mSE mE show ?thesis by auto
    next
      case False
      with that have "e \<le> k" by simp
      with first[OF that(1)] that(3) show ?thesis by simp
    qed
    have lm': "\<not> is_run ds s (Suc k)" if "s < Suc k" for s
      using that only[of s] by auto
    show ?thesis
      unfolding scan_inv_def step
      using lt lm' maxi' first' run_m mE M
      by (auto simp: mS_def[symmetric] mE_def[symmetric] M_def[symmetric]
          less_Suc_eq_le is_run_single)
  qed
qed

lemma scan_inv_loop:
  "scan_inv ds i st \<Longrightarrow> scan_inv ds (length ds) (scan_streaks ds i st)"
proof (induction ds i st rule: scan_streaks.induct)
  case (1 ds i st)
  show ?case
  proof (cases "i < length ds")
    case True
    from 1(2) have "0 < i" by (simp add: scan_inv_def)
    then obtain k where k: "i = Suc k" by (cases i) auto
    have "scan_inv ds (i + 1) (scan_step ds i st)"
      using scan_inv_step[of ds k st] 1(2) True k by simp
    then have "scan_inv ds (length ds) (scan_streaks ds (i + 1) (scan_step ds i st))"
      using 1(1)[OF True] by simp
    then show ?thesis using True by (subst scan_streaks.simps) simp
  next
    case False
    with 1(2) have "i = length ds" by (simp add: scan_inv_def)
    with 1(2) False show ?thesis by (subst scan_streaks.simps) simp
  qed
qed

lemma scan_inv_final:
  "ds \<noteq> [] \<Longrightarrow> scan_inv ds (length ds) (scan_streaks ds 1 scan_init)"
  by (intro scan_inv_loop scan_inv_init)

lemma calculateStreaks_empty:
  "activeDates_of activity year = [] \<Longrightarrow>
    calculateStreaks tz now activity year =
      \<lparr>st_maxStreak = 0, st_currentStreak = 0, st_maxStreakDays = {}\<rparr>"
  by (simp add: calculateStreaks_def)

lemma calculateStreaks_maxStreak:
  "activeDates_of activity year \<noteq> [] \<Longrightarrow>
    st_maxStreak (calculateStreaks tz now activity year) =
      sc_maxStreak (scan_streaks (activeDates_of activity year) 1 scan_init)"
  by (simp add: calculateStreaks_def Let_def)

lemma calculateStreaks_maxStreakDays:
  "activeDates_of activity year \<noteq> [] \<Longrightarrow>
    st_maxStreakDays (calculateStreaks tz now activity year) =
      set (map (\<lambda>i. activeDates_of activity year ! i)
        [sc_maxStreakStart (scan_streaks (activeDates_of activity year) 1 scan_init) ..<
         sc_maxStreakEnd (scan_streaks (activeDates_of activity year) 1 scan_init) + 1])"
  by (simp add: calculateStreaks_def Let_def)

lemma parseDateKey_midnight: "parseDateKey s = Some v \<Longrightarrow> \<exists>d. v = d * ms_per_day"
  unfolding parseDateKey_def by (auto split: if_splits option.splits)

lemma math_round_div_exact: "0 < D \<Longrightarrow> math_round_div (k * D) D = k"
proof -
  assume D: "0 < D"
  have "2 * (k * D) + D = (2 * k + 1) * D" by (simp add: algebra_simps)
  then have "math_round_div (k * D) D = ((2 * k + 1) * D) div (2 * D)"
    by (simp add: math_round_div_def)
  also have "\<dots> = (2 * k + 1) div 2" using D by simp
  also have "\<dots> = k" by simp
  finally show ?thesis .
qed

lemma diffDays_one: "diffDays a b = Some 1 \<Longrightarrow> consecutive_days a b"
proof -
  assume d: "diffDays a b = Some 1"
  then obtain p c where pc: "parseDateKey a = Some p" "parseDateKey b = Some c"
      and r: "math_round_div (c - p) ms_per_day = 1"
    by (auto simp: diffDays_def split: option.splits)
  obtain dp dc where "p = dp * ms_per_day" "c = dc * ms_per_day"
    using pc parseDateKey_midnight by blast
  then have e: "c - p = (dc - dp) * ms_per_day" by (simp add: algebra_simps)
  have "0 < ms_per_day" by (simp add: ms_per_day_def)
  then have "math_round_div ((dc - dp) * ms_per_day) ms_per_day = dc - dp"
    by (rule math_round_div_exact)
  with r e have "dc - dp = 1" by simp
  with e have "c - p = ms_per_day" by simp
  with pc show ?thesis by (simp add: consecutive_days_def)
qed

lemma run_instants:
  assumes run: "is_run ds s e" and p0: "parseDateKey (ds ! s) = Some p0"
  shows "s + n \<le> e \<Longrightarrow> parseDateKey (ds ! (s + n)) = Some (p0 + int n * ms_per_day)"
proof (induction n)
  case 0
  then show ?case using p0 by simp
next
  case (Suc n)
  then have ih: "parseDateKey (ds ! (s + n)) = Some (p0 + int n * ms_per_day)" by simp
  have "diffDays (ds ! (s + n)) (ds ! Suc (s + n)) = Some 1"
    using run Suc.prems by (simp add: is_run_iff)
  then have "consecutive_days (ds ! (s + n)) (ds ! Suc (s + n))" by (rule diffDays_one)
  with ih show ?case
    by (auto simp: consecutive_days_def algebra_simps split: option.splits)
qed

lemma run_distinct:
  assumes run: "is_run ds s e" and j: "s \<le> j1" "j1 < j2" "j2 \<le> e"
  shows "ds ! j1 \<noteq> ds ! j2"
proof -
  have "s < e" using j by simp
  then have "diffDays (ds ! s) (ds ! Suc s) = Some 1" using run by (simp add: is_run_iff)
  then obtain p0 where p0: "parseDateKey (ds ! s) = Some p0"
    by (auto simp: diffDays_def split: option.splits)
  have "parseDateKey (ds ! (s + (j1 - s))) = Some (p0 + int (j1 - s) * ms_per_day)"
    using j by (intro run_instants[OF run p0]) simp
  moreover have "parseDateKey (ds ! (s + (j2 - s))) = Some (p0 + int (j2 - s) * ms_per_day)"
    using j by (intro run_instants[OF run p0]) simp
  moreover have "int (j1 - s) * ms_per_day \<noteq> int (j2 - s) * ms_per_day"
    using j by (simp add: ms_per_day_def)
  ultimately show ?thesis using j by auto
qed

lemma sorted_activeDates: "sorted (activeDates_of activity year)"
  by (simp add: activeDates_of_def)

lemma run_slice:
  assumes run: "is_run ds s e" and srt: "sorted ds"
  defines "sl \<equiv> map (\<lambda>i. ds ! i) [s..<Suc e]"
  shows "length sl = e + 1 - s" and "distinct sl" and "sorted sl"
    and "\<And>j. Suc j < length sl \<Longrightarrow> consecutive_days (sl ! j) (sl ! Suc j)"
proof -
  have se: "s \<le> e" "e < length ds" using run by (simp_all add: is_run_iff)
  show len: "length sl = e + 1 - s" by (simp add: sl_def del: upt_Suc)
  have nth: "sl ! j = ds ! (s + j)" if "j < length sl" for j
    using that by (simp add: sl_def del: upt_Suc)
  show "distinct sl"
    unfolding distinct_conv_nth
  proof (intro allI impI)
    fix i j assume ij: "i < length sl" "j < length sl" "i \<noteq> j"
    have b: "s + i \<le> e" "s + j \<le> e" using ij len by linarith+
    have "ds ! (s + i) \<noteq> ds ! (s + j)"
    proof (cases "i < j")
      case True
      then show ?thesis using b by (intro run_distinct[OF run]) simp_all
    next
      case False
      with ij have "j < i" by simp
      then have "ds ! (s + j) \<noteq> ds ! (s + i)" using b by (intro run_distinct[OF run]) simp_all
      then show ?thesis by simp
    qed
    then show "sl ! i \<noteq> sl ! j" using nth ij by simp
  qed
  show "sorted sl"
    unfolding sorted_iff_nth_mono
  proof (intro allI impI)
    fix i j assume "i \<le> j" "j < length sl"
    then have "ds ! (s + i) \<le> ds ! (s + j)"
      using srt se len by (intro sorted_nth_mono) simp_all
    then show "sl ! i \<le> sl ! j" using nth \<open>i \<le> j\<close> \<open>j < length sl\<close> by simp
  qed
  fix j assume j: "Suc j < length sl"
  then have "diffDays (ds ! (s + j)) (ds ! Suc (s + j)) = Some 1"
    using run len by (simp add: is_run_iff)
  then have "consecutive_days (ds ! (s + j)) (ds ! Suc (s + j))" by (rule diffDays_one)
  then show "consecutive_days (sl ! j) (sl ! Suc j)" using nth[of j] nth[of "Suc j"] j by simp
qed

text \<open>
  C8.  For every daily-activity map, clock and target year, the \<open>maxStreakDays\<close> set that
  \<open>calculateStreaks\<close> returns has as many elements as the reported \<open>maxStreak\<close>, and in
  ascending order each of its dates is followed by the next calendar day.  With no active
  date in the year \<open>maxStreak\<close> is 0 and the set is empty; with exactly one active date
  \<open>maxStreak\<close> is 1.
\<close>

theorem max_streak_days_size_and_consecutive:
  assumes "calculateStreaks tz now activity year = r"
  shows "card (st_maxStreakDays r) = st_maxStreak r \<and>
         (\<forall>j. Suc j < length (sorted_list_of_set (st_maxStreakDays r)) \<longrightarrow>
            consecutive_days (sorted_list_of_set (st_maxStreakDays r) ! j)
              (sorted_list_of_set (st_maxStreakDays r) ! Suc j)) \<and>
         (activeDates_of activity year = [] \<longrightarrow> st_maxStreak r = 0 \<and> st_maxStreakDays r = {}) \<and>
         (length (activeDates_of activity year) = 1 \<longrightarrow> st_maxStreak r = 1)"
proof (cases "activeDates_of activity year = []")
  case True
  then show ?thesis using calculateStreaks_empty[OF True, of tz now] assms by auto
next
  case False
  define ds where "ds = activeDates_of activity year"
  define st where "st = scan_streaks ds 1 scan_init"
  define sl where "sl = map (\<lambda>i. ds ! i) [sc_maxStreakStart st ..< Suc (sc_maxStreakEnd st)]"
  have ne: "ds \<noteq> []" using False by (simp add: ds_def)
  have inv: "scan_inv ds (length ds) st"
    unfolding st_def by (rule scan_inv_final[OF ne])
  have run: "is_run ds (sc_maxStreakStart st) (sc_maxStreakEnd st)"
    and M: "sc_maxStreak st = sc_maxStreakEnd st + 1 - sc_maxStreakStart st"
    using inv by (simp_all add: scan_inv_def)
  have rM: "st_maxStreak r = sc_maxStreak st"
    using calculateStreaks_maxStreak[OF False, of tz now] assms by (simp add: st_def ds_def)
  have rD: "st_maxStreakDays r = set sl"
    using calculateStreaks_maxStreakDays[OF False, of tz now] assms
    by (simp add: sl_def st_def ds_def del: upt_Suc)
  have srt: "sorted ds" unfolding ds_def by (rule sorted_activeDates)
  note sl = run_slice[OF run srt, folded sl_def]
  have a: "card (st_maxStreakDays r) = st_maxStreak r"
    using sl(1,2) rM M rD by (simp add: distinct_card)
  have "sorted_list_of_set (set sl) = sl"
    using sl(2,3) by (intro sorted_distinct_set_unique) simp_all
  then have sls: "sorted_list_of_set (st_maxStreakDays r) = sl" using rD by simp
  have b: "\<forall>j. Suc j < length (sorted_list_of_set (st_maxStreakDays r)) \<longrightarrow>
            consecutive_days (sorted_list_of_set (st_maxStreakDays r) ! j)
              (sorted_list_of_set (st_maxStreakDays r) ! Suc j)"
    unfolding sls using sl(4) by blast
  have d: "length (activeDates_of activity year) = 1 \<longrightarrow> st_maxStreak r = 1"
  proof
    assume "length (activeDates_of activity year) = 1"
    then have "length ds = 1" by (simp add: ds_def)
    then have "st = scan_init" unfolding st_def by (subst scan_streaks.simps) simp
    then show "st_maxStreak r = 1" using rM by (simp add: scan_init_def)
  qed
  from a b d False show ?thesis by blast
qed

theorem max_streak_days_size_and_consecutive_witness:
  "st_maxStreak (calculateStreaks 0 1735732800000 spec_activity 2025) = 2 \<and>
   card (st_maxStreakDays (calculateStreaks 0 1735732800000 spec_activity 2025)) = 2 \<and>
   st_maxStreakDays (calculateStreaks 0 1735732800000 spec_activity 2025) =
     {''2025-01-01'', ''2025-01-02''} \<and>
   consecutive_days ''2025-01-01'' ''2025-01-02'' \<and>
   activeDates_of [] 2025 = [] \<and>
   st_maxStreak (calculateStreaks 0 1735732800000 [] 2025) = 0 \<and>
   st_maxStreakDays (calculateStreaks 0 1735732800000 [] 2025) = {} \<and>
   length (activeDates_of [(''2025-03-05'', 4)] 2025) = 1 \<and>
   st_maxStreak (calculateStreaks 0 1735732800000 [(''2025-03-05'', 4)] 2025) = 1"
proof -
  note t = max_streak_days_size_and_consecutive [OF refl, of 0 1735732800000 _ 2025]
  have m: "st_maxStreak (calculateStreaks 0 1735732800000 spec_activity 2025) = 2"
    by code_simp
  have d: "st_maxStreakDays (calculateStreaks 0 1735732800000 spec_activity 2025) =
     {''2025-01-01'', ''2025-01-02''}"
    by code_simp
  have c: "consecutive_days ''2025-01-01'' ''2025-01-02''" by code_simp
  have e: "activeDates_of [] 2025 = []" by (simp add: activeDates_of_def)
  have o: "length (activeDates_of [(''2025-03-05'', 4)] 2025) = 1" by code_simp
  have "card (st_maxStreakDays (calculateStreaks 0 1735732800000 spec_activity 2025)) =
      st_maxStreak (calculateStreaks 0 1735732800000 spec_activity 2025)"
    by (rule t [of spec_activity, THEN conjunct1])
  then have k: "card (st_maxStreakDays (calculateStreaks 0 1735732800000 spec_activity 2025)) = 2"
    by (simp only: m)
  have z: "st_maxStreak (calculateStreaks 0 1735732800000 [] 2025) = 0 \<and>
      st_maxStreakDays (calculateStreaks 0 1735732800000 [] 2025) = {}"
    by (rule t [of "[]", THEN conjunct2, THEN conjunct2, THEN conjunct1, THEN mp, OF e])
  have u: "st_maxStreak (calculateStreaks 0 1735732800000 [(''2025-03-05'', 4)] 2025) = 1"
    by (rule t [of "[(''2025-03-05'', 4)]", THEN conjunct2, THEN conjunct2, THEN conjunct2,
          THEN mp, OF o])
  from m k d c e z o u show ?thesis by (intro conjI) (rule m k d c e o u conjunct1[OF z] conjunct2[OF z])+
qed

text \<open>
  C7.  Over the ascending-sorted active dates of the year, the scan records the first run
  of maximal length: the recorded start and end delimit a run whose length is the
  reported \<open>maxStreak\<close>, no run is longer, every run of that same length starts at or
  after the recorded start (a later run of equal length does not replace it), and the
  \<open>maxStreakDays\<close> set holds exactly the dates at the indices from the recorded start to the
  recorded end.
\<close>

theorem max_streak_is_first_maximal_run:
  assumes "activeDates_of activity year = ds" and "ds \<noteq> []"
    and "scan_streaks ds 1 scan_init = st"
    and "calculateStreaks tz now activity year = r"
  shows "is_run ds (sc_maxStreakStart st) (sc_maxStreakEnd st) \<and>
         st_maxStreak r = sc_maxStreakEnd st + 1 - sc_maxStreakStart st \<and>
         (\<forall>s e. is_run ds s e \<longrightarrow> e + 1 - s \<le> st_maxStreak r) \<and>
         (\<forall>s e. is_run ds s e \<and> e + 1 - s = st_maxStreak r \<longrightarrow> sc_maxStreakStart st \<le> s) \<and>
         st_maxStreakDays r = {ds ! i | i. sc_maxStreakStart st \<le> i \<and> i \<le> sc_maxStreakEnd st}"
proof -
  have inv: "scan_inv ds (length ds) st"
    using scan_inv_final[OF assms(2)] assms(3) by simp
  have M: "st_maxStreak r = sc_maxStreak st"
    using calculateStreaks_maxStreak[of activity year tz now] assms by simp
  have D: "st_maxStreakDays r =
      set (map (\<lambda>i. ds ! i) [sc_maxStreakStart st ..< sc_maxStreakEnd st + 1])"
    using calculateStreaks_maxStreakDays[of activity year tz now] assms by simp
  have len: "e < length ds" if "is_run ds s e" for s e using that by (simp add: is_run_iff)
  have 1: "is_run ds (sc_maxStreakStart st) (sc_maxStreakEnd st)"
    using inv by (simp add: scan_inv_def)
  have 2: "st_maxStreak r = sc_maxStreakEnd st + 1 - sc_maxStreakStart st"
    using inv M by (simp add: scan_inv_def)
  have 3: "\<forall>s e. is_run ds s e \<longrightarrow> e + 1 - s \<le> st_maxStreak r"
    using inv len unfolding scan_inv_def M by blast
  have 4: "\<forall>s e. is_run ds s e \<and> e + 1 - s = st_maxStreak r \<longrightarrow> sc_maxStreakStart st \<le> s"
    using inv len unfolding scan_inv_def M by blast
  have 5: "st_maxStreakDays r = {ds ! i | i. sc_maxStreakStart st \<le> i \<and> i \<le> sc_maxStreakEnd st}"
    unfolding D by (auto simp: less_Suc_eq_le)
  from 1 2 3 4 5 show ?thesis by blast
qed

theorem max_streak_is_first_maximal_run_witness:
  "activeDates_of tie_activity 2025 =
     [''2025-01-01'', ''2025-01-02'', ''2025-01-04'', ''2025-01-05''] \<and>
   is_run (activeDates_of tie_activity 2025) 0 1 \<and>
   is_run (activeDates_of tie_activity 2025) 2 3 \<and>
   \<not> is_run (activeDates_of tie_activity 2025) 1 2 \<and>
   st_maxStreak (calculateStreaks 0 1735732800000 tie_activity 2025) = 2 \<and>
   sc_maxStreakStart (scan_streaks (activeDates_of tie_activity 2025) 1 scan_init) = 0 \<and>
   sc_maxStreakEnd (scan_streaks (activeDates_of tie_activity 2025) 1 scan_init) = 1 \<and>
   st_maxStreakDays (calculateStreaks 0 1735732800000 tie_activity 2025) =
     {''2025-01-01'', ''2025-01-02''}"
proof -
  have ds: "activeDates_of tie_activity 2025 =
     [''2025-01-01'', ''2025-01-02'', ''2025-01-04'', ''2025-01-05'']"
    by code_simp
  have ne: "[''2025-01-01'', ''2025-01-02'', ''2025-01-04'', ''2025-01-05''] \<noteq> []"
    by (rule list.distinct(2))
  have r1: "is_run (activeDates_of tie_activity 2025) 0 1" unfolding ds by code_simp
  have r2: "is_run (activeDates_of tie_activity 2025) 2 3" unfolding ds by code_simp
  have r3: "\<not> is_run (activeDates_of tie_activity 2025) 1 2" unfolding ds by code_simp
  have m: "st_maxStreak (calculateStreaks 0 1735732800000 tie_activity 2025) = 2"
    by code_simp
  have d: "st_maxStreakDays (calculateStreaks 0 1735732800000 tie_activity 2025) =
     {''2025-01-01'', ''2025-01-02''}"
    by code_simp
  have e: "sc_maxStreakEnd (scan_streaks (activeDates_of tie_activity 2025) 1 scan_init) = 1"
    unfolding ds by code_simp
  note t = max_streak_is_first_maximal_run [OF refl _ refl refl, of tie_activity 2025 0 1735732800000]
  have l: "(1::nat) + 1 - 0 = st_maxStreak (calculateStreaks 0 1735732800000 tie_activity 2025)"
    unfolding m by simp
  have "activeDates_of tie_activity 2025 \<noteq> []" unfolding ds by (rule ne)
  from t [OF this, THEN conjunct2, THEN conjunct2, THEN conjunct2, THEN conjunct1,
      rule_format, of 0 1, OF conjI, OF r1 l]
  have s: "sc_maxStreakStart (scan_streaks (activeDates_of tie_activity 2025) 1 scan_init) = 0"
    by (simp only: le_zero_eq)
  show ?thesis by (intro conjI) (rule ds r1 r2 r3 m s e d)+
qed

subsection \<open>The day before the first of January\<close>

lemma civil_from_days_era_doe:
  "civil_from_days n =
    civil_of_era_doe ((n + 719468) div 146097) ((n + 719468) mod 146097)"
  unfolding civil_from_days_def civil_of_era_doe_def yoe_of_def Let_def
  by (simp only: minus_div_mult_eq_mod)

lemma yoe_of_range: "0 \<le> doe \<Longrightarrow> doe < 146097 \<Longrightarrow> 0 \<le> yoe_of doe \<and> yoe_of doe \<le> 399"
proof -
  assume d: "0 \<le> doe" "doe < 146097"
  define a where "a = doe div 1460"
  define b where "b = doe div 36524"
  define c where "c = doe div 146096"
  have a: "1460 * a \<le> doe" unfolding a_def by (rule div_bounds) simp
  have b: "0 \<le> b" unfolding b_def using d by (simp add: pos_imp_zdiv_nonneg_iff)
  have c: "146096 * c \<le> doe" unfolding c_def by (rule div_bounds) simp
  have "0 \<le> doe - a + b - c" using a b c d by linarith
  then have "0 \<le> (doe - a + b - c) div 365" by (simp add: pos_imp_zdiv_nonneg_iff)
  then show ?thesis using yoe_le[OF d] by (simp add: yoe_of_def a_def b_def c_def)
qed

lemma yoe_of_last_day:
  "list_all (\<lambda>y. yoe_of (365 * int y + int y div 4 - int y div 100 + 305) = int y \<and>
      yoe_of (365 * int y + int y div 4 - int y div 100 - 61) \<noteq> int y) [0..<400]"
  by code_simp

lemma prev_day_same_era:
  fixes z :: int
  assumes "1 \<le> z mod 146097"
  shows "(z - 1) div 146097 = z div 146097" and "(z - 1) mod 146097 = z mod 146097 - 1"
proof -
  have e: "z - 1 = 146097 * (z div 146097) + (z mod 146097 - 1)"
    using mult_div_mod_eq[of 146097 z] by linarith
  have r: "0 \<le> z mod 146097 - 1" "z mod 146097 - 1 < 146097"
    using assms pos_mod_bound[of 146097 z] by simp_all
  show "(z - 1) div 146097 = z div 146097" using e r by (rule int_div_pos_eq)
  show "(z - 1) mod 146097 = z mod 146097 - 1" using e r by (rule int_mod_pos_eq)
qed

lemma day_before_jan1:
  assumes "civil_from_days n = (y, 1, 1)"
  shows "civil_from_days (n - 1) = (y - 1, 12, 31)"
proof -
  define z where "z = n + 719468"
  define era where "era = z div 146097"
  define doe where "doe = z mod 146097"
  define yoe where "yoe = yoe_of doe"
  define doy where "doy = doe - (365 * yoe + yoe div 4 - yoe div 100)"
  define mp where "mp = (5 * doy + 2) div 153"
  have c: "civil_of_era_doe era doe = (y, 1, 1)"
    using assms unfolding civil_from_days_era_doe era_def doe_def z_def .
  then have c': "(yoe + era * 400 + (if (if mp < 10 then mp + 3 else mp - 9) \<le> 2 then 1 else 0),
      (if mp < 10 then mp + 3 else mp - 9), doy - (153 * mp + 2) div 5 + 1) = (y, 1, 1)"
    unfolding civil_of_era_doe_def Let_def yoe_def[symmetric] doy_def[symmetric] mp_def[symmetric] .
  have m: "(if mp < 10 then mp + 3 else mp - 9) = 1"
    and dd: "doy - (153 * mp + 2) div 5 + 1 = 1"
    and yy: "yoe + era * 400 + (if (if mp < 10 then mp + 3 else mp - 9) \<le> 2 then 1 else 0) = y"
    using c'[unfolded prod.inject] by blast+
  have range: "0 \<le> doe" "doe < 146097" unfolding doe_def by simp_all
  have yr: "0 \<le> yoe" "yoe \<le> 399" unfolding yoe_def using yoe_of_range[OF range] by simp_all
  have "nat yoe \<in> set [0..<400]" using yr by auto
  with yoe_of_last_day
  have "yoe_of (365 * int (nat yoe) + int (nat yoe) div 4 - int (nat yoe) div 100 + 305) = int (nat yoe) \<and>
      yoe_of (365 * int (nat yoe) + int (nat yoe) div 4 - int (nat yoe) div 100 - 61) \<noteq> int (nat yoe)"
    unfolding list_all_iff by blast
  then have last: "yoe_of (365 * yoe + yoe div 4 - yoe div 100 + 305) = yoe"
    and early: "yoe_of (365 * yoe + yoe div 4 - yoe div 100 - 61) \<noteq> yoe"
    using yr by simp_all
  have mp10: "mp = 10"
  proof (rule ccontr)
    assume "mp \<noteq> 10"
    with m have mp: "mp = - 2" by (cases "mp < 10") auto
    with dd have "doy = - 61" by simp
    then have "doe = 365 * yoe + yoe div 4 - yoe div 100 - 61" unfolding doy_def by simp
    with early show False unfolding yoe_def by simp
  qed
  have doy: "doy = 306" using dd mp10 by simp
  have y: "y = yoe + era * 400 + 1" using yy mp10 by simp
  have doe: "doe = 365 * yoe + yoe div 4 - yoe div 100 + 306" using doy unfolding doy_def by simp
  have "doe - 1 = 365 * yoe + yoe div 4 - yoe div 100 + 305" using doe by linarith
  then have prev: "yoe_of (doe - 1) = yoe" using last by (simp only:)
  have "0 \<le> yoe div 4 - yoe div 100"
    using yr zdiv_mono2[of yoe 4 100] by simp
  then have "1 \<le> doe" using doe yr by linarith
  then have "1 \<le> z mod 146097" by (simp add: doe_def)
  note pd = prev_day_same_era[OF this]
  have "n - 1 + 719468 = z - 1" by (simp add: z_def)
  then have "civil_from_days (n - 1) =
      civil_of_era_doe ((z - 1) div 146097) ((z - 1) mod 146097)"
    by (simp only: civil_from_days_era_doe)
  also have "\<dots> = civil_of_era_doe era (doe - 1)"
    by (simp only: pd era_def doe_def)
  also have "\<dots> = (yoe + era * 400, 12, 31)"
    unfolding civil_of_era_doe_def prev Let_def using doe by simp
  finally show ?thesis using y by simp
qed

subsection \<open>The current streak at the turn of the year\<close>

lemma map_has_keys: "map_has m k \<longleftrightarrow> k \<in> fst ` set m"
  by (simp add: map_has_def map_of_eq_None_iff)

lemma keys_map_incr: "fst ` set (map_incr k m) = insert k (fst ` set m)"
  by (simp add: map_incr_def dom_update)

lemma dailyActivity_keys:
  "fst ` set (acc_dailyActivity (foldl (accumulate tz) acc ms)) =
    fst ` set (acc_dailyActivity acc) \<union> dateKey_of tz ` set ms"
proof (induction ms arbitrary: acc)
  case Nil
  then show ?case by simp
next
  case (Cons m ms)
  have "acc_dailyActivity (accumulate tz acc m) = map_incr (dateKey_of tz m) (acc_dailyActivity acc)"
    by (simp add: accumulate_dailyActivity dateKey_of_def)
  then show ?case by (simp add: Cons.IH keys_map_incr)
qed

lemma formatDateKey_prefix: "prefix (String_of (getFullYear tz t)) (formatDateKey tz t)"
  by (simp add: formatDateKey_def Let_def)

lemma calculateStats_currentStreak:
  "currentStreak (calculateStats tz now fs year source) =
    st_currentStreak (calculateStreaks tz now
      (acc_dailyActivity (foldl (accumulate tz) accum_init
        (year_messages tz year (c_messages (collectAll tz source fs None))))) year)"
  unfolding calculateStats_def Let_def by simp

text \<open>
  C2, as amended.  When "now" is Jan 1 of the target year and there is recorded activity on
  Jan 1, the \<open>currentStreak\<close> that
  \<open>calculateStats\<close> reports is exactly 1, whatever was recorded on Dec 31: the daily-activity
  map is built from the messages of the target year only, so the backwards walk from the
  anchor day finds no key for Dec 31 and stops at the year boundary.
\<close>

theorem current_streak_stops_at_year_boundary:
  assumes jan1: "civil_from_days (local_day tz now) = (year, 1, 1)"
    and m: "m \<in> set (c_messages (collectAll tz source fs None))"
    and mt: "m_timestamp m = Some t"
    and today: "local_day tz t = local_day tz now"
  shows "currentStreak (calculateStats tz now fs year source) = 1"
proof -
  have dec31: "civil_from_days (local_day tz now - 1) = (year - 1, 12, 31)"
    using jan1 by (rule day_before_jan1)
  define ym where "ym = year_messages tz year (c_messages (collectAll tz source fs None))"
  define da where "da = acc_dailyActivity (foldl (accumulate tz) accum_init ym)"
  have keys: "fst ` set da = dateKey_of tz ` set ym"
    unfolding da_def by (simp add: dailyActivity_keys accum_init_def)
  have year_now: "getFullYear tz now = year" using jan1 by (simp add: getFullYear_def)
  have "getFullYear tz t = year" using jan1 today by (simp add: getFullYear_def)
  then have "m \<in> set ym" using m mt by (simp add: ym_def year_messages_def in_year_def)
  then have "dateKey_of tz m \<in> fst ` set da" unfolding keys by (rule imageI)
  moreover have "dateKey_of tz m = formatDateKey tz now"
    using mt formatDateKey_local_day[OF today] by (simp add: dateKey_of_def)
  ultimately have has_today: "map_has da (formatDateKey tz now)" by (simp add: map_has_keys)
  have "formatDateKey tz now \<in> set (activeDates_of da year)"
    using has_today formatDateKey_prefix[of tz now] year_now
    by (simp add: activeDates_of_def map_has_keys)
  then have ne: "activeDates_of da year \<noteq> []" by auto
  have no_prev: "\<not> map_has da (formatDateKey tz (now - ms_per_day))"
  proof
    assume "map_has da (formatDateKey tz (now - ms_per_day))"
    then obtain m' where m': "m' \<in> set ym" "dateKey_of tz m' = formatDateKey tz (now - ms_per_day)"
      unfolding map_has_keys keys by auto
    from m'(1) obtain t' where t': "m_timestamp m' = Some t'" "getFullYear tz t' = year"
      by (auto simp: ym_def year_messages_def in_year_def split: option.splits)
    with m'(2) have "formatDateKey tz t' = formatDateKey tz (now - ms_per_day)"
      by (simp add: dateKey_of_def)
    then have "getFullYear tz t' = getFullYear tz (now - ms_per_day)"
      by (rule formatDateKey_year)
    moreover have "getFullYear tz (now - ms_per_day) = year - 1"
      using dec31 by (simp add: getFullYear_def local_day_prev)
    ultimately show False using t'(2) by simp
  qed
  have "countStreakBackwards tz da now = 1"
    unfolding countStreakBackwards_def using no_prev by (subst count_back.simps) simp
  then have "st_currentStreak (calculateStreaks tz now da year) = 1"
    using ne has_today by (simp add: calculateStreaks_def Let_def)
  then show ?thesis
    unfolding calculateStats_currentStreak da_def ym_def .
qed

theorem current_streak_stops_at_year_boundary_witness:
  "civil_from_days (local_day 0 1735736400000) = (2025, 1, 1) \<and>
   civil_from_days (local_day 0 1735736400000 - 1) = (2025 - 1, 12, 31) \<and>
   m_timestamp (c_messages (collectAll 0 Src_pi year_boundary_fs None) ! 1) = Some 1735732800000 \<and>
   local_day 0 1735732800000 = local_day 0 1735736400000 \<and>
   dateKey_of 0 (c_messages (collectAll 0 Src_pi year_boundary_fs None) ! 0) = ''2024-12-31'' \<and>
   currentStreak (calculateStats 0 1735736400000 year_boundary_fs 2025 Src_pi) = 1"
proof -
  have a: "civil_from_days (local_day 0 1735736400000) = (2025, 1, 1)" by code_simp
  have b: "civil_from_days (local_day 0 1735736400000 - 1) = (2025 - 1, 12, 31)" by code_simp
  have ms: "c_messages (collectAll 0 Src_pi year_boundary_fs None) =
      [\<lparr>m_sessionId = ''s1'', m_role = ''user'', m_timestamp = Some 1735646400000,
         m_provider = None, m_modelId = None, m_usage = None, m_source = Src_pi\<rparr>,
       \<lparr>m_sessionId = ''s1'', m_role = ''assistant'', m_timestamp = Some 1735732800000,
         m_provider = None, m_modelId = None, m_usage = None, m_source = Src_pi\<rparr>]"
    by (simp add: collectAll_def year_boundary_fs_def collect_pi_file_def parsePiFile_def
        year_excludes_def)
  have c: "c_messages (collectAll 0 Src_pi year_boundary_fs None) ! 1 \<in>
      set (c_messages (collectAll 0 Src_pi year_boundary_fs None))"
    unfolding ms by simp
  have d: "m_timestamp (c_messages (collectAll 0 Src_pi year_boundary_fs None) ! 1) =
      Some 1735732800000"
    unfolding ms by simp
  have e: "local_day 0 1735732800000 = local_day 0 1735736400000" by code_simp
  have f: "dateKey_of 0 (c_messages (collectAll 0 Src_pi year_boundary_fs None) ! 0) =
      ''2024-12-31''"
    unfolding ms by code_simp
  have "currentStreak (calculateStats 0 1735736400000 year_boundary_fs 2025 Src_pi) = 1"
    by (rule current_streak_stops_at_year_boundary [OF a c d e])
  with a b d e f show ?thesis by (intro conjI)
qed

text \<open>
  The claim as first stated: with activity on Dec 31, 2024 and on Jan 1, 2025, and "now" on
  Jan 1, 2025, the current streak of the year 2025 would be at least 2.  It is 1.
\<close>

theorem current_streak_does_not_bridge_years:
  "formatDateKey 0 1735736400000 = ''2025-01-01'' \<and>
   map (dateKey_of 0) (c_messages (collectAll 0 Src_pi year_boundary_fs None)) =
     [''2024-12-31'', ''2025-01-01''] \<and>
   currentStreak (calculateStats 0 1735736400000 year_boundary_fs 2025 Src_pi) = 1 \<and>
   \<not> 2 \<le> currentStreak (calculateStats 0 1735736400000 year_boundary_fs 2025 Src_pi)"
proof -
  have a: "formatDateKey 0 1735736400000 = ''2025-01-01''" by code_simp
  have b: "map (dateKey_of 0) (c_messages (collectAll 0 Src_pi year_boundary_fs None)) =
     [''2024-12-31'', ''2025-01-01'']" by code_simp
  have c: "currentStreak (calculateStats 0 1735736400000 year_boundary_fs 2025 Src_pi) = 1"
    by code_simp
  from a b c show ?thesis by simp
qed

subsection \<open>The project total\<close>

lemma calculateStats_totalProjects:
  "totalProjects (calculateStats tz now fs year source) =
    length (c_projects (collectAll tz source fs None))"
  unfolding calculateStats_def Let_def by simp

lemma projects_cover_incr:
  "projects_cover pm sessions \<Longrightarrow> projects_cover (map_incr (s_cwd s) pm) (sessions @ [s])"
proof -
  assume c: "projects_cover pm sessions"
  then have "distinct (map fst (map_incr (s_cwd s) pm))"
    unfolding map_incr_def projects_cover_def by (intro distinct_update) simp
  moreover have "fst ` set (map_incr (s_cwd s) pm) = s_cwd ` set (sessions @ [s])"
    using c by (simp add: keys_map_incr projects_cover_def)
  ultimately show ?thesis by (simp only: projects_cover_def)
qed

lemma collect_pi_cover:
  "projects_cover (snd (snd st)) (fst st) \<Longrightarrow>
    projects_cover (snd (snd (foldl (collect_pi_file tz year) st files)))
      (fst (foldl (collect_pi_file tz year) st files))"
proof (induction files arbitrary: st)
  case Nil
  then show ?case by simp
next
  case (Cons f files)
  obtain a b c where st: "st = (a, b, c)" by (cases st)
  have "projects_cover (snd (snd (collect_pi_file tz year st f))) (fst (collect_pi_file tz year st f))"
    using Cons.prems st
    by (auto simp: collect_pi_file_def split: prod.splits option.splits intro: projects_cover_incr)
  then show ?case by (simp add: Cons.IH)
qed

lemma collect_codex_cover:
  "projects_cover (snd (snd st)) (fst st) \<Longrightarrow>
    projects_cover (snd (snd (foldl (collect_codex_file tz year) st files)))
      (fst (foldl (collect_codex_file tz year) st files))"
proof (induction files arbitrary: st)
  case Nil
  then show ?case by simp
next
  case (Cons f files)
  obtain a b c where st: "st = (a, b, c)" by (cases st)
  have "projects_cover (snd (snd (collect_codex_file tz year st f)))
      (fst (collect_codex_file tz year st f))"
    using Cons.prems st
    by (auto simp: collect_codex_file_def split: prod.splits option.splits
        intro: projects_cover_incr)
  then show ?case by (simp add: Cons.IH)
qed

lemma collectOpenCode_session_cover:
  "projects_cover (snd (snd st)) (fst st) \<Longrightarrow>
    projects_cover (snd (snd (foldl (collectOpenCode_session tz year) st docs)))
      (fst (foldl (collectOpenCode_session tz year) st docs))"
proof (induction docs arbitrary: st)
  case Nil
  then show ?case by simp
next
  case (Cons d docs)
  obtain a b c where st: "st = (a, b, c)" by (cases st)
  have "projects_cover (map_incr (ocs_directory raw) c)
      (a @ [\<lparr>s_id = i, s_timestamp = t, s_cwd = ocs_directory raw, s_provider = p,
               s_modelId = mo, s_source = so\<rparr>])"
    for raw :: OpenCodeSession and i t p mo so
    using projects_cover_incr[of c a "\<lparr>s_id = i, s_timestamp = t, s_cwd = ocs_directory raw,
        s_provider = p, s_modelId = mo, s_source = so\<rparr>"] Cons.prems st by simp
  then have "projects_cover (snd (snd (collectOpenCode_session tz year st d)))
      (fst (collectOpenCode_session tz year st d))"
    using Cons.prems st
    by (auto simp: collectOpenCode_session_def split: option.splits)
  then show ?case by (simp add: Cons.IH)
qed

lemma collectOpenCode_message_keeps:
  "fst (foldl (collectOpenCode_message tz year) st docs) = fst st \<and>
   snd (snd (foldl (collectOpenCode_message tz year) st docs)) = snd (snd st)"
  by (induction docs arbitrary: st)
    (auto simp: collectOpenCode_message_def split: prod.splits option.splits)

lemma merge_claude_cover:
  "projects_cover pm (map snd allSessions) \<Longrightarrow>
    projects_cover (snd (merge_claude_sessions fileSessions allSessions pm))
      (map snd (fst (merge_claude_sessions fileSessions allSessions pm)))"
proof (induction fileSessions arbitrary: allSessions pm)
  case Nil
  then show ?case by simp
next
  case (Cons e fileSessions)
  obtain k s where e: "e = (k, s)" by (cases e)
  show ?case
  proof (cases "map_has allSessions k")
    case True
    then show ?thesis using Cons e by simp
  next
    case False
    then have "AList.update k s allSessions = allSessions @ [(k, s)]"
      by (simp add: map_has_def update_absent)
    then have "projects_cover (map_incr (s_cwd s) pm) (map snd (AList.update k s allSessions))"
      using projects_cover_incr[OF Cons.prems, of s] by simp
    then show ?thesis using Cons.IH e False by simp
  qed
qed

lemma collect_claude_cover:
  "projects_cover (snd (snd st)) (map snd (fst st)) \<Longrightarrow>
    projects_cover (snd (snd (foldl (collect_claude_file tz year) st files)))
      (map snd (fst (foldl (collect_claude_file tz year) st files)))"
proof (induction files arbitrary: st)
  case Nil
  then show ?case by simp
next
  case (Cons f files)
  obtain a b c where st: "st = (a, b, c)" by (cases st)
  have "projects_cover (snd (snd (collect_claude_file tz year st f)))
      (map snd (fst (collect_claude_file tz year st f)))"
    using merge_claude_cover[of c a "fst (parseClaudeFile tz year f)"] Cons.prems st
    by (auto simp: collect_claude_file_def split: prod.splits)
  then show ?case by (simp add: Cons.IH)
qed

lemma projects_of_paths: "map p_path (projects_of pm source) = map fst pm"
  by (induction pm) (auto simp: projects_of_def)

lemma projects_of_keys: "p_path ` set (projects_of pm source) = fst ` set pm"
  using arg_cong[OF projects_of_paths[of pm source], of set] by (simp only: set_map)

lemma collectAll_projects_cover:
  "distinct (map p_path (c_projects (collectAll tz source fs year))) \<and>
   set (map p_path (c_projects (collectAll tz source fs year))) =
     s_cwd ` set (c_sessions (collectAll tz source fs year))"
proof -
  have init: "projects_cover [] []" by (simp add: projects_cover_def)
  show ?thesis
  proof (cases source)
    case Src_pi
    have "projects_cover (snd (snd (foldl (collect_pi_file tz year) ([], [], []) (pi_files fs))))
        (fst (foldl (collect_pi_file tz year) ([], [], []) (pi_files fs)))"
      by (rule collect_pi_cover) (simp add: init)
    moreover obtain x1 a b where
      "foldl (collect_pi_file tz year) ([], [], []) (pi_files fs) = (x1, a, b)"
      by (cases "foldl (collect_pi_file tz year) ([], [], []) (pi_files fs)")
    ultimately show ?thesis using Src_pi
      by (simp add: collectAll_def projects_of_paths projects_of_keys projects_cover_def)
  next
    case Src_codex
    have "projects_cover (snd (snd (foldl (collect_codex_file tz year) ([], [], []) (codex_files fs))))
        (fst (foldl (collect_codex_file tz year) ([], [], []) (codex_files fs)))"
      by (rule collect_codex_cover) (simp add: init)
    moreover obtain x1 a b where
      "foldl (collect_codex_file tz year) ([], [], []) (codex_files fs) = (x1, a, b)"
      by (cases "foldl (collect_codex_file tz year) ([], [], []) (codex_files fs)")
    ultimately show ?thesis using Src_codex
      by (simp add: collectAll_def projects_of_paths projects_of_keys projects_cover_def)
  next
    case Src_claude
    have "projects_cover (snd (snd (foldl (collect_claude_file tz year) ([], [], []) (claude_files fs))))
        (map snd (fst (foldl (collect_claude_file tz year) ([], [], []) (claude_files fs))))"
      by (rule collect_claude_cover) (simp add: init)
    moreover obtain x1 a b where
      "foldl (collect_claude_file tz year) ([], [], []) (claude_files fs) = (x1, a, b)"
      by (cases "foldl (collect_claude_file tz year) ([], [], []) (claude_files fs)")
    ultimately show ?thesis using Src_claude
      by (simp add: collectAll_def projects_of_paths projects_of_keys projects_cover_def)
  next
    case Src_opencode
    define st1 where "st1 = foldl (collectOpenCode_session tz year) ([], [], []) (opencode_session_docs fs)"
    have "projects_cover (snd (snd st1)) (fst st1)"
      unfolding st1_def by (rule collectOpenCode_session_cover) (simp add: init)
    then have "projects_cover
        (snd (snd (foldl (collectOpenCode_message tz year) st1 (opencode_message_docs fs))))
        (fst (foldl (collectOpenCode_message tz year) st1 (opencode_message_docs fs)))"
      by (simp add: collectOpenCode_message_keeps)
    moreover obtain x1 a b where
      "foldl (collectOpenCode_message tz year) st1 (opencode_message_docs fs) = (x1, a, b)"
      by (cases "foldl (collectOpenCode_message tz year) st1 (opencode_message_docs fs)")
    ultimately show ?thesis using Src_opencode
      by (simp add: collectAll_def collectOpenCode_def Let_def st1_def[symmetric]
          projects_of_paths projects_of_keys projects_cover_def)
  qed
qed

text \<open>
  What the summary counts instead: the distinct working directories of all collected
  sessions, of every year.
\<close>

lemma total_projects_counts_all_sessions:
  "totalProjects (calculateStats tz now fs year source) =
    card (s_cwd ` set (c_sessions (collectAll tz source fs None)))"
proof -
  note c = collectAll_projects_cover[of tz source fs None]
  have "card (set (map p_path (c_projects (collectAll tz source fs None)))) =
      length (map p_path (c_projects (collectAll tz source fs None)))"
    using c by (intro distinct_card) blast
  moreover have "set (map p_path (c_projects (collectAll tz source fs None))) =
      s_cwd ` set (c_sessions (collectAll tz source fs None))"
    using c by blast
  ultimately have "card (s_cwd ` set (c_sessions (collectAll tz source fs None))) =
      length (c_projects (collectAll tz source fs None))"
    by (simp only: length_map)
  then show ?thesis by (simp only: calculateStats_totalProjects)
qed

text \<open>
  C1.  The claim: \<open>totalProjects\<close> equals the number of distinct working directories among
  the sessions of the target year.  \<open>calculateStats\<close> calls \<open>collectAll\<close> without a year and
  filters the sessions and the messages itself, but takes the project list as it comes:
  with one session of 2024 in \<open>/old\<close> and one session of 2025 in \<open>/new\<close>, the summary of
  2025 counts one session, whose only directory is \<open>/new\<close>, and two projects.
\<close>

theorem total_projects_not_year_filtered:
  "map s_cwd (year_sessions 0 2025 (c_sessions (collectAll 0 Src_pi two_year_fs None))) = [''/new''] \<and>
   totalSessions (calculateStats 0 1735736400000 two_year_fs 2025 Src_pi) = 1 \<and>
   map p_path (c_projects (collectAll 0 Src_pi two_year_fs None)) = [''/old'', ''/new''] \<and>
   totalProjects (calculateStats 0 1735736400000 two_year_fs 2025 Src_pi) = 2 \<and>
   totalProjects (calculateStats 0 1735736400000 two_year_fs 2025 Src_pi) \<noteq>
     card (s_cwd ` set (year_sessions 0 2025 (c_sessions (collectAll 0 Src_pi two_year_fs None))))"
proof -
  have a: "map s_cwd (year_sessions 0 2025 (c_sessions (collectAll 0 Src_pi two_year_fs None))) =
      [''/new'']" by code_simp
  have b: "totalSessions (calculateStats 0 1735736400000 two_year_fs 2025 Src_pi) = 1"
    by code_simp
  have c: "map p_path (c_projects (collectAll 0 Src_pi two_year_fs None)) = [''/old'', ''/new'']"
    by code_simp
  have d: "totalProjects (calculateStats 0 1735736400000 two_year_fs 2025 Src_pi) = 2"
    unfolding calculateStats_totalProjects using arg_cong[OF c, of length] by simp
  have "s_cwd ` set (year_sessions 0 2025 (c_sessions (collectAll 0 Src_pi two_year_fs None))) =
      {''/new''}"
    using arg_cong[OF a, of set] by simp
  then have e: "card (s_cwd ` set (year_sessions 0 2025
      (c_sessions (collectAll 0 Src_pi two_year_fs None)))) = 1" by simp
  from a b c d e show ?thesis by simp
qed

end
